theory Spec2Isabelle
  imports Main "HOL-Library.Char_ord" "HOL-Library.List_Lexorder" "HOL-Library.Multiset"
    "HOL-Library.AList"
begin

section \<open>The static file handler of fasthttp (fshandler.go)\<close>

text \<open>
  A Go \<open>[]byte\<close> and a Go \<open>string\<close> are both sequences of bytes; they are modelled as
  \<open>string\<close> (a list of 8-bit characters). A panic is a value of type \<open>panic\<close> carrying
  the message of the source.
\<close>

datatype panic = Panic string

subsection \<open>Library functions on byte sequences\<close>

text \<open>
  \<open>bytes.IndexByte\<close>: the index of the first occurrence of \<open>c\<close>, or \<open>-1\<close>.
  \<open>strings.LastIndexByte\<close>: the index of the last occurrence of \<open>c\<close>, or \<open>-1\<close>.
\<close>

fun IndexByte :: "string \<Rightarrow> char \<Rightarrow> int" where
  "IndexByte [] c = - 1"
| "IndexByte (x # xs) c =
     (if x = c then 0
      else (let n = IndexByte xs c in if n < 0 then - 1 else n + 1))"

fun LastIndexByte :: "string \<Rightarrow> char \<Rightarrow> int" where
  "LastIndexByte [] c = - 1"
| "LastIndexByte (x # xs) c =
     (let n = LastIndexByte xs c in
      if 0 \<le> n then n + 1 else if x = c then 0 else - 1)"

subsection \<open>fileExtension\<close>

definition fileExtension :: "string \<Rightarrow> string" where
  "fileExtension path =
     (let n = LastIndexByte path (CHR ''.'') in
      if n < 0 then [] else drop (nat n) path)"

subsection \<open>stripPathSlashes\<close>

text \<open>
  The first loop of \<open>stripPathSlashes\<close>. \<open>path[1:]\<close> is \<open>drop 1 path\<close>,
  \<open>path[:0]\<close> is \<open>take 0 path\<close> and \<open>path[n+1:]\<close> is \<open>drop (nat (n + 1)) path\<close>;
  the \<open>break\<close> leaves the loop with the emptied path.
\<close>

function strip_leading :: "string \<Rightarrow> int \<Rightarrow> panic + string" where
  "strip_leading path stripSlashes =
     (if 0 < stripSlashes \<and> 0 < length path then
        (if path ! 0 \<noteq> CHR ''/'' then Inl (Panic ''BUG: path must start with slash'')
         else (let n = IndexByte (drop 1 path) (CHR ''/'') in
               if n < 0 then Inr (take 0 path)
               else strip_leading (drop (nat (n + 1)) path) (stripSlashes - 1)))
      else Inr path)"
  by pat_completeness auto
termination
  by (relation "measure (\<lambda>(path, stripSlashes). nat stripSlashes)") auto

text \<open>The second loop: \<open>path[len(path)-1]\<close> is \<open>last path\<close>, \<open>path[:len(path)-1]\<close> is \<open>butlast path\<close>.\<close>

function strip_trailing :: "string \<Rightarrow> string" where
  "strip_trailing path =
     (if 0 < length path \<and> last path = CHR ''/'' then strip_trailing (butlast path)
      else path)"
  by pat_completeness auto
termination
  by (relation "measure length") auto

declare strip_leading.simps [simp del]
declare strip_trailing.simps [simp del]

definition stripPathSlashes :: "string \<Rightarrow> int \<Rightarrow> panic + string" where
  "stripPathSlashes path stripSlashes =
     (case strip_leading path stripSlashes of
        Inl p \<Rightarrow> Inl p
      | Inr path' \<Rightarrow> Inr (strip_trailing path'))"

text \<open>
  The normalisation in the words of the specification, to compare with the code:
  a segment is a \<open>/\<close> and the bytes after it up to the next \<open>/\<close>; the number of
  segments of a path that starts with \<open>/\<close> is its number of \<open>/\<close>.
\<close>

definition remove_segment :: "string \<Rightarrow> string" where
  "remove_segment p = dropWhile (\<lambda>c. c \<noteq> CHR ''/'') (tl p)"

definition remove_trailing_slashes :: "string \<Rightarrow> string" where
  "remove_trailing_slashes p = rev (dropWhile (\<lambda>c. c = CHR ''/'') (rev p))"

definition segment_count :: "string \<Rightarrow> nat" where
  "segment_count p = length (filter (\<lambda>c. c = CHR ''/'') p)"

subsection \<open>Errors, the file system and the process state\<close>

text \<open>
  Go \<open>error\<close> values: the errors of package \<open>os\<close>, the sentinel
  \<open>errDirIndexRequired\<close> and the \<open>too big file\<close> error with the size it reports.
  \<open>os.IsNotExist\<close> holds of the not-exist error of package \<open>os\<close> only.
\<close>

datatype os_error = ErrNotExist | ErrPermission | ErrOther string

datatype error = OsError os_error | errDirIndexRequired | ErrTooBigFile int

definition IsNotExist :: "error \<Rightarrow> bool" where
  "IsNotExist err = (err = OsError ErrNotExist)"

record File =
  file_fd :: nat
  file_name :: string

record FileInfo =
  info_IsDir :: bool
  info_Size :: int

text \<open>
  The file system is a finite table from path names to what \<open>os.Open\<close>, \<open>Stat\<close> and
  \<open>Readdirnames\<close> answer there; a path that is not in the table does not exist.
  The process state holds the descriptors that are open.
\<close>

record fs_entry =
  open_err :: "os_error option"
  stat_result :: "os_error + FileInfo"
  readdir_result :: "os_error + string list"

type_synonym filesystem = "(string \<times> fs_entry) list"

record os_state =
  next_fd :: nat
  open_fds :: "nat list"

definition os_Open :: "filesystem \<Rightarrow> os_state \<Rightarrow> string \<Rightarrow> (os_error + File) \<times> os_state" where
  "os_Open fs w name =
     (case map_of fs name of
        None \<Rightarrow> (Inl ErrNotExist, w)
      | Some e \<Rightarrow>
          (case open_err e of
             Some err \<Rightarrow> (Inl err, w)
           | None \<Rightarrow>
               (Inr \<lparr>file_fd = next_fd w, file_name = name\<rparr>,
                w\<lparr>next_fd := Suc (next_fd w), open_fds := next_fd w # open_fds w\<rparr>)))"

definition file_Close :: "os_state \<Rightarrow> File \<Rightarrow> os_state" where
  "file_Close w f = w\<lparr>open_fds := removeAll (file_fd f) (open_fds w)\<rparr>"

definition file_Stat :: "filesystem \<Rightarrow> File \<Rightarrow> os_error + FileInfo" where
  "file_Stat fs f =
     (case map_of fs (file_name f) of None \<Rightarrow> Inl ErrNotExist | Some e \<Rightarrow> stat_result e)"

definition file_Readdirnames :: "filesystem \<Rightarrow> File \<Rightarrow> os_error + string list" where
  "file_Readdirnames fs f =
     (case map_of fs (file_name f) of None \<Rightarrow> Inl ErrNotExist | Some e \<Rightarrow> readdir_result e)"

definition path_bound :: "filesystem \<Rightarrow> nat" where
  "path_bound fs = sum_list (map (\<lambda>kv. length (fst kv)) fs)"

subsection \<open>What the handler takes from outside this file\<close>

text \<open>
  The environment of the handler: the file system, \<open>mime.TypeByExtension\<close>, the width of
  the platform's \<open>int\<close> (32 or 64), \<open>os.File.ReadAt\<close> (the bytes read into a buffer of the
  given length at the given offset, and the error), and the methods \<open>Path\<close> and \<open>Update\<close>
  of the repository's type \<open>URI\<close>, whose code is not part of this file.
\<close>

datatype io_error = EOF | ReadError string

record 'u env =
  env_fs :: filesystem
  TypeByExtension :: "string \<Rightarrow> string"
  int_bits :: nat
  ReadAt :: "File \<Rightarrow> nat \<Rightarrow> int \<Rightarrow> string \<times> io_error option"
  uri_Path :: "'u \<Rightarrow> string"
  uri_Update :: "'u \<Rightarrow> string \<Rightarrow> 'u"

text \<open>The conversion \<open>int(n)\<close> of an \<open>int64\<close> keeps the low bits, read as a signed number.\<close>

definition to_int :: "nat \<Rightarrow> int \<Rightarrow> int" where
  "to_int bits n = signed_take_bit (bits - 1) n"

text \<open>
  \<open>html.EscapeString\<close> of the Go library replaces the five bytes
  \<open>&\<close>, \<open>'\<close>, \<open><\<close>, \<open>>\<close> and the double quote.
\<close>

definition escape_byte :: "char \<Rightarrow> string" where
  "escape_byte c =
     (if c = CHR ''&'' then ''&amp;''
      else if c = CHR 0x27 then ''&#39;''
      else if c = CHR ''<'' then ''&lt;''
      else if c = CHR ''>'' then ''&gt;''
      else if c = CHR 0x22 then ''&#34;''
      else [c])"

definition EscapeString :: "string \<Rightarrow> string" where
  "EscapeString s = concat (map escape_byte s)"

text \<open>
  \<open>time.Time\<close> is the number of nanoseconds since the zero \<open>Time\<close> (the value of a field
  that was never assigned); \<open>Sub\<close> saturates at the bounds of \<open>Duration\<close>, an \<open>int64\<close>.
\<close>

definition maxDuration :: int where
  "maxDuration = 2 ^ 63 - 1"

definition minDuration :: int where
  "minDuration = - (2 ^ 63)"

definition time_Sub :: "int \<Rightarrow> int \<Rightarrow> int" where
  "time_Sub t u =
     (let d = t - u in
      if maxDuration < d then maxDuration else if d < minDuration then minDuration else d)"

definition Second :: int where
  "Second = 1000000000"

definition FSHandlerCacheDuration :: int where
  "FSHandlerCacheDuration = 10 * Second"

subsection \<open>fsFile, fsFileReader and the pool\<close>

text \<open>
  The fields \<open>f\<close>, \<open>dirIndex\<close>, \<open>contentType\<close>, \<open>contentLength\<close> and \<open>t\<close> of \<open>fsFile\<close>,
  and \<open>f\<close>, \<open>dirIndex\<close> and \<open>offset\<close> of \<open>fsFileReader\<close>. A nil pointer and a nil slice
  are \<open>None\<close>.
\<close>

record fsFile =
  ff_f :: "File option"
  ff_dirIndex :: "string option"
  ff_contentType :: string
  ff_contentLength :: int
  ff_t :: int

record fsFileReader =
  r_f :: "File option"
  r_dirIndex :: "string option"
  r_offset :: int

definition bytes_of :: "string option \<Rightarrow> string" where
  "bytes_of b = (case b of None \<Rightarrow> [] | Some xs \<Rightarrow> xs)"

text \<open>
  \<open>fsFileReaderPool\<close> is a list of readers; \<open>Get\<close> takes one out or returns nil,
  \<open>Put\<close> adds one.
\<close>

definition pool_Get :: "fsFileReader list \<Rightarrow> fsFileReader option \<times> fsFileReader list" where
  "pool_Get pool = (case pool of [] \<Rightarrow> (None, []) | r # rs \<Rightarrow> (Some r, rs))"

definition pool_Put :: "fsFileReader \<Rightarrow> fsFileReader list \<Rightarrow> fsFileReader list" where
  "pool_Put r pool = r # pool"

text \<open>The body of \<open>fsFile.Reader\<close> after \<open>v := fsFileReaderPool.Get()\<close>.\<close>

definition Reader_of :: "fsFile \<Rightarrow> fsFileReader option \<Rightarrow> panic + fsFileReader" where
  "Reader_of ff v =
     (case v of
        None \<Rightarrow> Inr \<lparr>r_f = ff_f ff, r_dirIndex = ff_dirIndex ff, r_offset = 0\<rparr>
      | Some r0 \<Rightarrow>
          (let r = r0\<lparr>r_f := ff_f ff, r_dirIndex := ff_dirIndex ff\<rparr> in
           if 0 < r_offset r
           then Inl (Panic ''BUG: fsFileReader with non-nil offset found in the pool'')
           else Inr r))"

definition Reader :: "fsFile \<Rightarrow> fsFileReader list \<Rightarrow> (panic + fsFileReader) \<times> fsFileReader list" where
  "Reader ff pool = (case pool_Get pool of (v, pool') \<Rightarrow> (Reader_of ff v, pool'))"

text \<open>\<open>Close\<close> returns the error \<open>nil\<close> (\<open>None\<close>) and the pool with the reader put back.\<close>

definition Close :: "fsFileReader \<Rightarrow> fsFileReader list \<Rightarrow> error option \<times> fsFileReader list" where
  "Close r pool =
     (let r1 = r\<lparr>r_f := None\<rparr>;
          r2 = r1\<lparr>r_dirIndex := None\<rparr>;
          r3 = r2\<lparr>r_offset := 0\<rparr>
      in (None, pool_Put r3 pool))"

text \<open>
  \<open>Read\<close> with a buffer \<open>p\<close> of length \<open>k\<close>: the result is the bytes written to \<open>p\<close>
  (\<open>n\<close> is their number) and the error. \<open>r.dirIndex[r.offset:]\<close> panics out of range;
  \<open>copy\<close> copies as many bytes as fit.
\<close>

definition Read :: "'u env \<Rightarrow> fsFileReader \<Rightarrow> nat \<Rightarrow> (panic + string \<times> io_error option) \<times> fsFileReader" where
  "Read env r k =
     (case r_f r of
        Some f \<Rightarrow>
          (case ReadAt env f k (r_offset r) of
             (data, err) \<Rightarrow> (Inr (data, err), r\<lparr>r_offset := r_offset r + int (length data)\<rparr>))
      | None \<Rightarrow>
          if r_offset r = int (length (bytes_of (r_dirIndex r))) then (Inr ([], Some EOF), r)
          else if r_offset r < 0 \<or> int (length (bytes_of (r_dirIndex r))) < r_offset r
          then (Inl (Panic ''slice bounds out of range''), r)
          else (let data = take k (drop (nat (r_offset r)) (bytes_of (r_dirIndex r)))
                in (Inr (data, None), r\<lparr>r_offset := r_offset r + int (length data)\<rparr>)))"

text \<open>
  A consumer that calls \<open>Read\<close> with buffers of the lengths \<open>ks\<close>, one after the other,
  and stops at the first error or panic: the bytes it has received, whether it has seen
  \<open>EOF\<close>, and the reader it is left with.
\<close>

fun read_calls :: "'u env \<Rightarrow> fsFileReader \<Rightarrow> nat list \<Rightarrow> string \<times> bool \<times> fsFileReader" where
  "read_calls env r [] = ([], False, r)"
| "read_calls env r (k # ks) =
     (case Read env r k of
        (Inl p, r') \<Rightarrow> ([], False, r')
      | (Inr (data, Some err), r') \<Rightarrow> (data, err = EOF, r')
      | (Inr (data, None), r') \<Rightarrow>
          (case read_calls env r' ks of (out, eof, r'') \<Rightarrow> (data @ out, eof, r'')))"

subsection \<open>openFSFile and createDirIndex\<close>

function openFSFile :: "'u env \<Rightarrow> os_state \<Rightarrow> string \<Rightarrow> (error + fsFile) \<times> os_state" where
  "openFSFile env w filePath =
     (case os_Open (env_fs env) w filePath of
        (Inl err, w1) \<Rightarrow> (Inl (OsError err), w1)
      | (Inr f, w1) \<Rightarrow>
          (case file_Stat (env_fs env) f of
             Inl err \<Rightarrow> (Inl (OsError err), file_Close w1 f)
           | Inr stat \<Rightarrow>
               if info_IsDir stat then
                 (let w2 = file_Close w1 f;
                      indexPath = filePath @ ''/index.html''
                  in case openFSFile env w2 indexPath of
                       (Inr ff, w3) \<Rightarrow> (Inr ff, w3)
                     | (Inl err, w3) \<Rightarrow>
                         if \<not> IsNotExist err then (Inl err, w3)
                         else (Inl errDirIndexRequired, w3))
               else
                 (let n = info_Size stat;
                      contentLength = to_int (int_bits env) n
                  in if n \<noteq> contentLength then (Inl (ErrTooBigFile n), file_Close w1 f)
                     else
                       (let ext = fileExtension filePath;
                            contentType = TypeByExtension env ext
                        in (Inr \<lparr>ff_f = Some f, ff_dirIndex = None, ff_contentType = contentType,
                                 ff_contentLength = contentLength, ff_t = 0\<rparr>, w1)))))"
  by pat_completeness auto

termination openFSFile
proof (relation "measure (\<lambda>(env, w, filePath). Suc (path_bound (env_fs env)) - length filePath)")
  show "wf (measure (\<lambda>(env :: 'a env, w :: os_state, filePath :: string).
          Suc (path_bound (env_fs env)) - length filePath))"
    by simp
next
  fix env :: "'a env" and w :: os_state and filePath :: string
    and x :: "os_error + File" and y b ba xa xb
  assume "(x, y) = os_Open (env_fs env) w filePath" and "x = Inr b"
    and "xa = file_Close y b" and xb: "xb = filePath @ ''/index.html''"
  then have "os_Open (env_fs env) w filePath = (Inr b, y)"
    by simp
  then obtain e where "map_of (env_fs env) filePath = Some e"
    by (auto simp: os_Open_def split: option.splits)
  then have "(filePath, e) \<in> set (env_fs env)"
    by (rule map_of_SomeD)
  then have "length (fst (filePath, e)) \<in> set (map (\<lambda>kv. length (fst kv)) (env_fs env))"
    unfolding set_map by (rule imageI)
  then have "length filePath \<le> path_bound (env_fs env)"
    unfolding path_bound_def using member_le_sum_list by fastforce
  then show "((env, xa, xb), env, w, filePath)
      \<in> measure (\<lambda>(env, w, filePath). Suc (path_bound (env_fs env)) - length filePath)"
    using xb by simp
qed

declare openFSFile.simps [simp del]

text \<open>
  \<open>fmt.Fprintf(w, ...)\<close> appends the formatted text to the buffer. The loop of
  \<open>createDirIndex\<close> over the sorted names updates the one copy \<open>u\<close> of the base URI
  with each name in turn.
\<close>

definition Fprintf :: "string \<Rightarrow> string \<Rightarrow> string" where
  "Fprintf w s = w @ s"

definition dquote :: string where
  "dquote = [CHR 0x22]"

fun write_items :: "'u env \<Rightarrow> 'u \<Rightarrow> string \<Rightarrow> string list \<Rightarrow> 'u \<times> string" where
  "write_items env u w [] = (u, w)"
| "write_items env u w (name # filenames) =
     (let u' = uri_Update env u name;
          pathEscaped = EscapeString (uri_Path env u');
          w' = Fprintf w (''<li><a href='' @ dquote @ pathEscaped @ dquote @ ''>''
                 @ EscapeString name @ ''</a></li>'')
      in write_items env u' w' filenames)"

definition createDirIndex :: "'u env \<Rightarrow> os_state \<Rightarrow> 'u \<Rightarrow> string \<Rightarrow> (error + fsFile) \<times> os_state" where
  "createDirIndex env os0 base filePath =
     (let basePathEscaped = EscapeString (uri_Path env base);
          w = Fprintf [] (''<html><head><title>'' @ basePathEscaped @ ''</title></head><body>'');
          w = Fprintf w (''<h1>'' @ basePathEscaped @ ''</h1>'');
          w = Fprintf w ''<ul>'';
          w = (if 1 < length basePathEscaped
               then Fprintf w (''<li><a href='' @ dquote @ ''..'' @ dquote @ ''>..</a></li>'')
               else w)
      in case os_Open (env_fs env) os0 filePath of
           (Inl err, os1) \<Rightarrow> (Inl (OsError err), os1)
         | (Inr f, os1) \<Rightarrow>
             (let res = file_Readdirnames (env_fs env) f;
                  os2 = file_Close os1 f
              in case res of
                   Inl err \<Rightarrow> (Inl (OsError err), os2)
                 | Inr filenames \<Rightarrow>
                     (let u = base;
                          filenames = sort filenames;
                          w = snd (write_items env u w filenames);
                          w = Fprintf w ''</ul></body></html>'';
                          dirIndex = w
                      in (Inr \<lparr>ff_f = None, ff_dirIndex = Some dirIndex,
                               ff_contentType = ''text/html'',
                               ff_contentLength = int (length dirIndex), ff_t = 0\<rparr>, os2))))"

subsection \<open>The handler\<close>

record fsHandler =
  h_root :: string
  h_stripSlashes :: int
  h_cache :: "(string \<times> fsFile) list"

text \<open>
  Modelled from the spec: the request context \<open>RequestCtx\<close> is not part of this file.
  It exposes the raw request path and the request URI, a logging sink
  (\<open>Logger().Printf\<close>, here the list of what was logged), a way to report an error with a
  status code (\<open>Error\<close>), and ways to set the body stream with its declared length
  (\<open>SetBodyStream\<close>) and the content type (\<open>SetContentType\<close>). \<open>StatusBadRequest\<close> and
  \<open>StatusNotFound\<close> are the HTTP codes 400 and 404.
\<close>

datatype log_entry =
    LogNilByte int string
  | LogCannotCreateIndex string error
  | LogCannotOpen string error

datatype body = NoBody | BodyString string | BodyStream fsFileReader int

record 'u RequestCtx =
  ctx_Path :: string
  ctx_URI :: 'u
  ctx_log :: "log_entry list"
  ctx_status :: int
  ctx_body :: body
  ctx_contentType :: string

definition StatusBadRequest :: int where
  "StatusBadRequest = 400"

definition StatusNotFound :: int where
  "StatusNotFound = 404"

definition ctx_Printf :: "log_entry \<Rightarrow> 'u RequestCtx \<Rightarrow> 'u RequestCtx" where
  "ctx_Printf e ctx = ctx\<lparr>ctx_log := ctx_log ctx @ [e]\<rparr>"

definition ctx_Error :: "string \<Rightarrow> int \<Rightarrow> 'u RequestCtx \<Rightarrow> 'u RequestCtx" where
  "ctx_Error msg code ctx = ctx\<lparr>ctx_status := code, ctx_body := BodyString msg\<rparr>"

definition ctx_SetBodyStream :: "fsFileReader \<Rightarrow> int \<Rightarrow> 'u RequestCtx \<Rightarrow> 'u RequestCtx" where
  "ctx_SetBodyStream r n ctx = ctx\<lparr>ctx_body := BodyStream r n\<rparr>"

definition ctx_SetContentType :: "string \<Rightarrow> 'u RequestCtx \<Rightarrow> 'u RequestCtx" where
  "ctx_SetContentType ct ctx = ctx\<lparr>ctx_contentType := ct\<rparr>"

text \<open>
  What a call of the handler reads and writes: the handler with its cache, the pool of
  readers, the open descriptors of the process, and the request context.
\<close>

record 'u state =
  st_h :: fsHandler
  st_pool :: "fsFileReader list"
  st_os :: os_state
  st_ctx :: "'u RequestCtx"

text \<open>
  \<open>FSHandler\<close> without the goroutine that calls \<open>cleanCache\<close>: its loop over the
  trailing slashes of \<open>root\<close> is the second loop of \<open>stripPathSlashes\<close>.
\<close>

definition FSHandler :: "string \<Rightarrow> int \<Rightarrow> fsHandler" where
  "FSHandler root stripSlashes =
     (let root = strip_trailing root;
          root = (if length root = 0 then ''.'' else root);
          stripSlashes = (if stripSlashes < 0 then 0 else stripSlashes)
      in \<lparr>h_root = root, h_stripSlashes = stripSlashes, h_cache = []\<rparr>)"

text \<open>
  The block \<open>if !ok { ... }\<close> of \<open>handleRequest\<close>: \<open>None\<close> when it returns from the handler
  with an error response, otherwise the new \<open>ff\<close>, stored in the cache under \<open>path\<close>.
\<close>

definition cache_miss :: "'u env \<Rightarrow> 'u state \<Rightarrow> string \<Rightarrow> fsFile option \<times> 'u state" where
  "cache_miss env st path =
     (let filePath = h_root (st_h st) @ path in
      case openFSFile env (st_os st) filePath of
        (Inr ff, os1) \<Rightarrow>
          (Some ff, st\<lparr>st_os := os1,
                       st_h := (st_h st)\<lparr>h_cache := AList.update path ff (h_cache (st_h st))\<rparr>\<rparr>)
      | (Inl err, os1) \<Rightarrow>
          if err = errDirIndexRequired then
            (case createDirIndex env os1 (ctx_URI (st_ctx st)) filePath of
               (Inl err', os2) \<Rightarrow>
                 (None, st\<lparr>st_os := os2,
                           st_ctx := ctx_Error ''Cannot create directory index'' StatusNotFound
                             (ctx_Printf (LogCannotCreateIndex filePath err') (st_ctx st))\<rparr>)
             | (Inr ff, os2) \<Rightarrow>
                 (Some ff, st\<lparr>st_os := os2,
                              st_h := (st_h st)\<lparr>h_cache := AList.update path ff (h_cache (st_h st))\<rparr>\<rparr>))
          else
            (None, st\<lparr>st_os := os1,
                      st_ctx := ctx_Error ''Cannot open requested path'' StatusNotFound
                        (ctx_Printf (LogCannotOpen filePath err) (st_ctx st))\<rparr>))"

definition handleRequest :: "'u env \<Rightarrow> 'u state \<Rightarrow> panic + 'u state" where
  "handleRequest env st =
     (case stripPathSlashes (ctx_Path (st_ctx st)) (h_stripSlashes (st_h st)) of
        Inl p \<Rightarrow> Inl p
      | Inr path \<Rightarrow>
          (let n = IndexByte path (CHR 0x00) in
           if 0 \<le> n then
             Inr (st\<lparr>st_ctx := ctx_Error ''Are you a hacker?'' StatusBadRequest
                                 (ctx_Printf (LogNilByte n path) (st_ctx st))\<rparr>)
           else
             (case (case map_of (h_cache (st_h st)) path of
                      Some ff \<Rightarrow> (Some ff, st)
                    | None \<Rightarrow> cache_miss env st path) of
                (None, st') \<Rightarrow> Inr st'
              | (Some ff, st') \<Rightarrow>
                  (case Reader ff (st_pool st') of
                     (Inl p, pool') \<Rightarrow> Inl p
                   | (Inr r, pool') \<Rightarrow>
                       Inr (st'\<lparr>st_pool := pool',
                                st_ctx := ctx_SetContentType (ff_contentType ff)
                                  (ctx_SetBodyStream r (ff_contentLength ff) (st_ctx st'))\<rparr>)))))"

text \<open>
  \<open>cleanCache\<close> at the clock reading \<open>now\<close> (\<open>time.Now()\<close>): the loop over the entries
  of the cache, then the handler with what is left.
\<close>

fun sweep :: "int \<Rightarrow> (string \<times> fsFile) list \<Rightarrow> os_state \<Rightarrow> (string \<times> fsFile) list \<times> os_state" where
  "sweep now [] os0 = ([], os0)"
| "sweep now ((k, v) # kvs) os0 =
     (if FSHandlerCacheDuration < time_Sub now (ff_t v) then
        sweep now kvs (case ff_f v of Some f \<Rightarrow> file_Close os0 f | None \<Rightarrow> os0)
      else
        (case sweep now kvs os0 of (kvs', os1) \<Rightarrow> ((k, v) # kvs', os1)))"

definition cleanCache :: "int \<Rightarrow> 'u state \<Rightarrow> 'u state" where
  "cleanCache now st =
     (case sweep now (h_cache (st_h st)) (st_os st) of
        (cache', os1) \<Rightarrow> st\<lparr>st_h := (st_h st)\<lparr>h_cache := cache'\<rparr>, st_os := os1\<rparr>)"

subsection \<open>A small file tree for concrete runs\<close>

definition dir_entry :: "string list \<Rightarrow> fs_entry" where
  "dir_entry names =
     \<lparr>open_err = None, stat_result = Inr \<lparr>info_IsDir = True, info_Size = 4096\<rparr>,
      readdir_result = Inr names\<rparr>"

definition file_entry :: "int \<Rightarrow> fs_entry" where
  "file_entry n =
     \<lparr>open_err = None, stat_result = Inr \<lparr>info_IsDir = False, info_Size = n\<rparr>,
      readdir_result = Inl (ErrOther ''not a directory'')\<rparr>"

definition example_fs :: filesystem where
  "example_fs =
     [(''/srv'', dir_entry [''g'', ''e'', ''d'', ''a.b'', ''f.txt'', ''big'']),
      (''/srv/f.txt'', file_entry 5),
      (''/srv/a.b'', dir_entry [''c'']),
      (''/srv/a.b/c'', file_entry 3),
      (''/srv/d'', dir_entry [''b.txt'', ''a.txt'', ''index.htm'']),
      (''/srv/e'', dir_entry [''index.html'']),
      (''/srv/e/index.html'', file_entry 7),
      (''/srv/g'', dir_entry [''index.html'']),
      (''/srv/g/index.html'', dir_entry []),
      (''/srv/big'', file_entry (2 ^ 31))]"

text \<open>
  In the concrete runs a URI is its path, and \<open>Update\<close> with a relative name replaces
  what follows the last \<open>/\<close> of the path.
\<close>

definition example_Update :: "string \<Rightarrow> string \<Rightarrow> string" where
  "example_Update u name = rev (dropWhile (\<lambda>c. c \<noteq> CHR ''/'') (rev u)) @ name"

definition example_mime :: "string \<Rightarrow> string" where
  "example_mime ext =
     (if ext = ''.html'' then ''text/html; charset=utf-8''
      else if ext = ''.txt'' then ''text/plain; charset=utf-8''
      else [])"

definition example_env :: "nat \<Rightarrow> string env" where
  "example_env bits =
     \<lparr>env_fs = example_fs, TypeByExtension = example_mime, int_bits = bits,
      ReadAt = (\<lambda>f k off. ([], Some EOF)),
      uri_Path = (\<lambda>u. u), uri_Update = example_Update\<rparr>"

definition example_os :: os_state where
  "example_os = \<lparr>next_fd = 3, open_fds = []\<rparr>"

definition example_ctx :: "string \<Rightarrow> string RequestCtx" where
  "example_ctx path =
     \<lparr>ctx_Path = path, ctx_URI = path, ctx_log = [], ctx_status = 200, ctx_body = NoBody,
      ctx_contentType = []\<rparr>"

definition example_state :: "int \<Rightarrow> string \<Rightarrow> string state" where
  "example_state stripSlashes path =
     \<lparr>st_h = FSHandler ''/srv/'' stripSlashes, st_pool = [], st_os = example_os,
      st_ctx = example_ctx path\<rparr>"

subsection \<open>The invariant of a descriptor\<close>

text \<open>Exactly one of the backing handle and the generated content is populated.\<close>

definition one_populated :: "fsFile \<Rightarrow> bool" where
  "one_populated ff = ((ff_f ff \<noteq> None) \<noteq> (ff_dirIndex ff \<noteq> None))"

subsection \<open>The directory listing in the words of the specification\<close>

text \<open>
  One list item with an escaped href and an escaped name; the hrefs of the children,
  each name resolved with \<open>Update\<close> against the URI left by the one before; and the page:
  title and heading from the escaped requested path, the parent link when the path is
  not \<open>/\<close>, and one item per name in the order given.
\<close>

definition list_item :: "string \<Rightarrow> string \<Rightarrow> string" where
  "list_item href name =
     ''<li><a href='' @ dquote @ EscapeString href @ dquote @ ''>'' @ EscapeString name
       @ ''</a></li>''"

fun item_hrefs :: "'u env \<Rightarrow> 'u \<Rightarrow> string list \<Rightarrow> string list" where
  "item_hrefs env u [] = []"
| "item_hrefs env u (name # names) =
     uri_Path env (uri_Update env u name) # item_hrefs env (uri_Update env u name) names"

definition parent_item :: string where
  "parent_item = ''<li><a href='' @ dquote @ ''..'' @ dquote @ ''>..</a></li>''"

definition listing_page :: "'u env \<Rightarrow> 'u \<Rightarrow> string list \<Rightarrow> string" where
  "listing_page env base names =
     ''<html><head><title>'' @ EscapeString (uri_Path env base) @ ''</title></head><body>''
       @ ''<h1>'' @ EscapeString (uri_Path env base) @ ''</h1>''
       @ ''<ul>''
       @ (if uri_Path env base \<noteq> ''/'' then parent_item else [])
       @ concat (map2 list_item (item_hrefs env base names) names)
       @ ''</ul></body></html>''"

section \<open>Properties\<close>

subsection \<open>Byte search\<close>

lemma IndexByte_ge: "- 1 \<le> IndexByte xs c"
  by (induction xs) (auto simp: Let_def)

lemma IndexByte_neg_iff: "IndexByte xs c < 0 \<longleftrightarrow> c \<notin> set xs"
proof (induction xs)
  case Nil
  then show ?case by simp
next
  case (Cons x xs)
  then show ?case using IndexByte_ge [of xs c] by (auto simp: Let_def)
qed

lemma IndexByte_drop:
  "0 \<le> IndexByte xs c \<Longrightarrow> drop (nat (IndexByte xs c)) xs = dropWhile (\<lambda>x. x \<noteq> c) xs"
proof (induction xs)
  case Nil
  then show ?case by simp
next
  case (Cons x xs)
  show ?case
  proof (cases "x = c")
    case True
    then show ?thesis by simp
  next
    case False
    with Cons.prems have nn: "0 \<le> IndexByte xs c"
      by (auto simp: Let_def split: if_splits)
    with False Cons.IH show ?thesis
      by (simp add: Let_def nat_add_distrib)
  qed
qed

lemma LastIndexByte_ge: "- 1 \<le> LastIndexByte xs c"
  by (induction xs) (auto simp: Let_def)

lemma LastIndexByte_neg_iff: "LastIndexByte xs c < 0 \<longleftrightarrow> c \<notin> set xs"
proof (induction xs)
  case Nil
  then show ?case by simp
next
  case (Cons x xs)
  then show ?case using LastIndexByte_ge [of xs c] by (auto simp: Let_def)
qed

lemma LastIndexByte_split:
  "c \<notin> set suf \<Longrightarrow> LastIndexByte (pre @ c # suf) c = int (length pre)"
  by (induction pre)
    (auto simp: Let_def LastIndexByte_neg_iff dest: iffD2 [OF LastIndexByte_neg_iff])

lemma fileExtension_none: "CHR ''.'' \<notin> set path \<Longrightarrow> fileExtension path = []"
  by (simp add: fileExtension_def Let_def LastIndexByte_neg_iff)

lemma fileExtension_suffix:
  "CHR ''.'' \<notin> set suf \<Longrightarrow> fileExtension (pre @ CHR ''.'' # suf) = CHR ''.'' # suf"
  by (simp add: fileExtension_def Let_def LastIndexByte_split)

lemma fileExtension_index_html: "fileExtension (p @ ''/index.html'') = ''.html''"
  using fileExtension_suffix [of "''html''" "p @ ''/index''"] by simp

subsection \<open>stripPathSlashes and the normalisation of the specification\<close>

lemma strip_trailing_eq: "strip_trailing p = remove_trailing_slashes p"
proof (induction p rule: strip_trailing.induct)
  case (1 path)
  show ?case
  proof (cases "0 < length path \<and> last path = CHR ''/''")
    case True
    then have "butlast path @ [CHR ''/''] = path"
      using append_butlast_last_id [of path] by auto
    moreover have "remove_trailing_slashes (butlast path @ [CHR ''/''])
        = remove_trailing_slashes (butlast path)"
      by (simp add: remove_trailing_slashes_def)
    ultimately have "remove_trailing_slashes path = remove_trailing_slashes (butlast path)"
      by simp
    with 1 True show ?thesis
      by (subst strip_trailing.simps) simp
  next
    case False
    then have "remove_trailing_slashes path = path"
      unfolding remove_trailing_slashes_def by (cases path rule: rev_cases) auto
    with False show ?thesis
      by (subst strip_trailing.simps) auto
  qed
qed

lemma remove_segment_start:
  "remove_segment p = [] \<or> hd (remove_segment p) = CHR ''/''"
  using hd_dropWhile [of "\<lambda>c. c \<noteq> CHR ''/''" "tl p"] by (auto simp: remove_segment_def)

lemma remove_segment_funpow_Nil: "(remove_segment ^^ n) [] = []"
  by (induction n) (auto simp: remove_segment_def)

lemma strip_leading_eq:
  "p = [] \<or> hd p = CHR ''/'' \<Longrightarrow> strip_leading p s = Inr ((remove_segment ^^ nat s) p)"
proof (induction p s rule: strip_leading.induct)
  case (1 path s)
  show ?case
  proof (cases "0 < s \<and> 0 < length path")
    case False
    then show ?thesis
      by (subst strip_leading.simps) (auto simp: remove_segment_funpow_Nil)
  next
    case True
    then have ne: "path \<noteq> []" and h: "path ! 0 = CHR ''/''"
      using 1(2) by (auto simp: hd_conv_nth)
    have s: "nat s = Suc (nat (s - 1))"
      using True by arith
    have unroll: "(remove_segment ^^ nat s) path
        = (remove_segment ^^ nat (s - 1)) (remove_segment path)"
      by (subst s) (simp only: funpow_Suc_right o_apply)
    let ?n = "IndexByte (drop 1 path) (CHR ''/'')"
    show ?thesis
    proof (cases "?n < 0")
      case neg: True
      then have "remove_segment path = []"
        by (auto simp add: remove_segment_def IndexByte_neg_iff drop_Suc)
      then have "(remove_segment ^^ nat s) path = []"
        by (simp only: unroll remove_segment_funpow_Nil)
      with True h neg show ?thesis
        by (subst strip_leading.simps) (simp add: Let_def)
    next
      case nn: False
      then have "drop (nat ?n) (drop 1 path) = remove_segment path"
        using IndexByte_drop [of "drop 1 path" "CHR ''/''"]
        by (simp add: remove_segment_def drop_Suc)
      then have d: "drop (nat (?n + 1)) path = remove_segment path"
        using nn by (simp add: nat_add_distrib add.commute)
      have "remove_segment path = [] \<or> hd (remove_segment path) = CHR ''/''"
        by (rule remove_segment_start)
      with d have "drop (nat (?n + 1)) path = [] \<or> hd (drop (nat (?n + 1)) path) = CHR ''/''"
        by simp
      with 1(1) [OF True _ refl] h nn
      have "strip_leading (drop (nat (?n + 1)) path) (s - 1)
          = Inr ((remove_segment ^^ nat (s - 1)) (drop (nat (?n + 1)) path))"
        by simp
      then have "strip_leading (drop (nat (?n + 1)) path) (s - 1)
          = Inr ((remove_segment ^^ nat s) path)"
        by (simp only: d unroll)
      then show ?thesis using True h nn
        by (subst strip_leading.simps) (simp add: Let_def)
    qed
  qed
qed

lemma remove_segment_funpow_start:
  "p = [] \<or> hd p = CHR ''/'' \<Longrightarrow>
    (remove_segment ^^ n) p = [] \<or> hd ((remove_segment ^^ n) p) = CHR ''/''"
  by (induction n) (auto simp: remove_segment_start)

lemma segment_count_remove_segment:
  assumes "p \<noteq> []" and "hd p = CHR ''/''"
  shows "segment_count (remove_segment p) = segment_count p - 1"
proof -
  from assms obtain q where p: "p = CHR ''/'' # q"
    by (cases p) auto
  have "filter (\<lambda>c. c = CHR ''/'') (takeWhile (\<lambda>c. c \<noteq> CHR ''/'') q) = []"
    by (induction q) auto
  then have "filter (\<lambda>c. c = CHR ''/'') (dropWhile (\<lambda>c. c \<noteq> CHR ''/'') q)
      = filter (\<lambda>c. c = CHR ''/'') q"
    using takeWhile_dropWhile_id [of "\<lambda>c. c \<noteq> CHR ''/''" q]
      filter_append [of "\<lambda>c. c = CHR ''/''" "takeWhile (\<lambda>c. c \<noteq> CHR ''/'') q"
        "dropWhile (\<lambda>c. c \<noteq> CHR ''/'') q"]
    by simp
  then show ?thesis
    by (simp add: p segment_count_def remove_segment_def)
qed

lemma segment_count_funpow:
  "p = [] \<or> hd p = CHR ''/'' \<Longrightarrow>
    segment_count ((remove_segment ^^ n) p) = segment_count p - n"
proof (induction n)
  case 0
  then show ?case by simp
next
  case (Suc n)
  let ?q = "(remove_segment ^^ n) p"
  from Suc.prems have st: "?q = [] \<or> hd ?q = CHR ''/''"
    by (rule remove_segment_funpow_start)
  show ?case
  proof (cases "?q = []")
    case True
    then have z: "segment_count ?q = 0"
      by (simp add: segment_count_def)
    with Suc have "segment_count p - n = 0"
      by simp
    then have "segment_count p - Suc n = 0"
      by simp
    moreover have "(remove_segment ^^ Suc n) p = []"
      using True by (simp add: remove_segment_def)
    ultimately show ?thesis
      by (simp only: segment_count_def filter.simps list.size)
  next
    case False
    with st segment_count_remove_segment [of ?q] Suc show ?thesis
      by simp
  qed
qed

lemma no_segments_empty:
  "p = [] \<or> hd p = CHR ''/'' \<Longrightarrow> segment_count p = 0 \<Longrightarrow> p = []"
  by (cases p) (auto simp: segment_count_def)

lemma remove_trailing_slashes_end:
  "remove_trailing_slashes p = [] \<or> last (remove_trailing_slashes p) \<noteq> CHR ''/''"
  using hd_dropWhile [of "\<lambda>c. c = CHR ''/''" "rev p"]
  by (auto simp: remove_trailing_slashes_def last_rev)

lemma remove_trailing_slashes_hd:
  assumes ne: "remove_trailing_slashes p \<noteq> []"
  shows "hd (remove_trailing_slashes p) = hd p"
proof -
  have "p = remove_trailing_slashes p @ rev (takeWhile (\<lambda>c. c = CHR ''/'') (rev p))"
    unfolding remove_trailing_slashes_def
    by (metis rev_append rev_rev_ident takeWhile_dropWhile_id)
  then show ?thesis
    using ne by (metis hd_append2)
qed

lemma remove_trailing_slashes_set:
  "c \<noteq> CHR ''/'' \<Longrightarrow> c \<in> set (remove_trailing_slashes p) \<longleftrightarrow> c \<in> set p"
proof -
  assume c: "c \<noteq> CHR ''/''"
  have "set (rev p) = set (takeWhile (\<lambda>c. c = CHR ''/'') (rev p))
      \<union> set (dropWhile (\<lambda>c. c = CHR ''/'') (rev p))"
    by (metis set_append takeWhile_dropWhile_id)
  moreover have "c \<notin> set (takeWhile (\<lambda>c. c = CHR ''/'') (rev p))"
    using c by (auto dest: set_takeWhileD)
  ultimately show ?thesis
    by (auto simp: remove_trailing_slashes_def)
qed

text \<open>
  C2, as the code has it. For every strip count \<open>s\<close> and every path \<open>p\<close> that starts with
  \<open>/\<close>, \<open>stripPathSlashes\<close> does not panic and returns \<open>p\<close> with its first \<open>s\<close> segments
  removed and then every trailing \<open>/\<close> removed, where a segment is a \<open>/\<close> with the bytes
  that follow it up to the next \<open>/\<close>, so that what is left keeps its own leading \<open>/\<close>.
  The result never ends with \<open>/\<close>; it is empty or starts with \<open>/\<close>; and it is empty as
  soon as \<open>s\<close> is at least the number of segments of \<open>p\<close>.
\<close>

theorem stripPathSlashes_segments:
  assumes "p \<noteq> []" and "hd p = CHR ''/''"
  shows "\<exists>r. stripPathSlashes p s = Inr r
    \<and> r = remove_trailing_slashes ((remove_segment ^^ nat s) p)
    \<and> (r = [] \<or> hd r = CHR ''/'' \<and> last r \<noteq> CHR ''/'')
    \<and> (int (segment_count p) \<le> s \<longrightarrow> r = [])"
proof -
  let ?q = "(remove_segment ^^ nat s) p"
  let ?r = "remove_trailing_slashes ?q"
  from assms have start: "p = [] \<or> hd p = CHR ''/''"
    by simp
  have eq: "stripPathSlashes p s = Inr ?r"
    by (simp add: stripPathSlashes_def strip_leading_eq [OF start] strip_trailing_eq)
  have q: "?q = [] \<or> hd ?q = CHR ''/''"
    using start by (rule remove_segment_funpow_start)
  have shape: "?r = [] \<or> hd ?r = CHR ''/'' \<and> last ?r \<noteq> CHR ''/''"
  proof (cases "?r = []")
    case True
    then show ?thesis by simp
  next
    case False
    then have "?q \<noteq> []"
      by (auto simp: remove_trailing_slashes_def)
    with q False remove_trailing_slashes_hd [of ?q] remove_trailing_slashes_end [of ?q]
    show ?thesis by auto
  qed
  have all: "int (segment_count p) \<le> s \<longrightarrow> ?r = []"
  proof
    assume "int (segment_count p) \<le> s"
    then have "segment_count p - nat s = 0"
      by simp
    then have "segment_count ?q = 0"
      using segment_count_funpow [OF start, of "nat s"] by simp
    with q have "?q = []"
      by (rule no_segments_empty)
    then show "?r = []"
      by (simp add: remove_trailing_slashes_def)
  qed
  from eq shape all show ?thesis
    by blast
qed

text \<open>
  The theorem at \<open>/foo/bar/\<close> with one segment stripped and at \<open>/foo/bar\<close> with two.
\<close>

theorem stripPathSlashes_segments_witness:
  "stripPathSlashes ''/foo/bar/'' 1 = Inr ''/bar'' \<and> stripPathSlashes ''/foo/bar'' 2 = Inr []"
  using stripPathSlashes_segments [of "''/foo/bar/''" 1]
    stripPathSlashes_segments [of "''/foo/bar''" 2]
  by (simp add: segment_count_def remove_segment_def remove_trailing_slashes_def)

text \<open>
  C2 as it is written fails: stripping one segment of \<open>/foo/bar\<close> gives \<open>/bar\<close>, which
  starts with \<open>/\<close>, and not \<open>bar\<close>. The comment of \<open>FSHandler\<close> gives the same result.
\<close>

theorem stripPathSlashes_keeps_leading_slash:
  "stripPathSlashes ''/foo/bar'' 1 = Inr ''/bar'' \<and> stripPathSlashes ''/foo/bar'' 1 \<noteq> Inr ''bar''"
  by (simp add: stripPathSlashes_def strip_leading.simps strip_trailing.simps Let_def)

subsection \<open>openFSFile on a regular file\<close>

lemma openFSFile_regular:
  assumes "os_Open (env_fs env) w filePath = (Inr f, w1)"
    and "file_Stat (env_fs env) f = Inr info" and "\<not> info_IsDir info"
  shows "openFSFile env w filePath =
    (if info_Size info \<noteq> to_int (int_bits env) (info_Size info)
     then (Inl (ErrTooBigFile (info_Size info)), file_Close w1 f)
     else (Inr \<lparr>ff_f = Some f, ff_dirIndex = None,
                ff_contentType = TypeByExtension env (fileExtension filePath),
                ff_contentLength = to_int (int_bits env) (info_Size info), ff_t = 0\<rparr>, w1))"
  using assms by (subst openFSFile.simps) (simp add: Let_def)

lemma to_int_eq_iff:
  "to_int bits n = n \<longleftrightarrow> - (2 ^ (bits - 1)) \<le> n \<and> n < 2 ^ (bits - 1)"
  by (simp add: to_int_def signed_take_bit_int_eq_self_iff)

lemma os_Open_Inr:
  "os_Open fs w p = (Inr f, w1) \<Longrightarrow>
     file_fd f = next_fd w \<and> file_name f = p \<and> file_fd f \<in> set (open_fds w1)
     \<and> next_fd w1 = Suc (next_fd w) \<and> open_fds w1 = next_fd w # open_fds w"
  by (auto simp: os_Open_def split: option.splits)

lemma file_Close_closed: "file_fd f \<notin> set (open_fds (file_Close w f))"
  by (simp add: file_Close_def)

text \<open>
  C8. When \<open>openFSFile\<close> opens a path whose \<open>Stat\<close> says it is not a directory, the
  result depends on the size \<open>n\<close> alone. If \<open>n\<close> is representable in the platform's \<open>int\<close>
  (of \<open>int_bits\<close> bits), the descriptor has \<open>contentLength = n\<close> (non-negative when \<open>n\<close>
  is), the handle that was opened as its backing handle, still open, no generated
  content, and the content type that \<open>TypeByExtension\<close> gives for the extension of the
  path, whatever that is (the empty type included). Otherwise the result is the
  \<open>too big file\<close> error, no descriptor, and the handle has been closed.
\<close>

theorem openFSFile_regular_file:
  assumes "os_Open (env_fs env) w filePath = (Inr f, w1)"
    and "file_Stat (env_fs env) f = Inr info" and "\<not> info_IsDir info"
  shows "(if - (2 ^ (int_bits env - 1)) \<le> info_Size info \<and> info_Size info < 2 ^ (int_bits env - 1)
      then openFSFile env w filePath =
            (Inr \<lparr>ff_f = Some f, ff_dirIndex = None,
                   ff_contentType = TypeByExtension env (fileExtension filePath),
                   ff_contentLength = info_Size info, ff_t = 0\<rparr>, w1)
        \<and> file_fd f \<in> set (open_fds w1)
        \<and> (0 \<le> info_Size info \<longrightarrow> 0 \<le> ff_contentLength (projr (fst (openFSFile env w filePath))))
      else openFSFile env w filePath = (Inl (ErrTooBigFile (info_Size info)), file_Close w1 f)
        \<and> file_fd f \<notin> set (open_fds (file_Close w1 f)))"
proof -
  let ?n = "info_Size info"
  have fits: "(- (2 ^ (int_bits env - 1)) \<le> ?n \<and> ?n < 2 ^ (int_bits env - 1))
      \<longleftrightarrow> to_int (int_bits env) ?n = ?n"
    using to_int_eq_iff [of "int_bits env" ?n] by auto
  have kept: "file_fd f \<in> set (open_fds w1)"
    using os_Open_Inr [OF assms(1)] by simp
  show ?thesis
  proof (cases "to_int (int_bits env) ?n = ?n")
    case False
    then have "openFSFile env w filePath = (Inl (ErrTooBigFile ?n), file_Close w1 f)"
      using openFSFile_regular [OF assms] by auto
    with False fits show ?thesis
      by (simp add: file_Close_closed)
  next
    case True
    then have "openFSFile env w filePath = (Inr \<lparr>ff_f = Some f, ff_dirIndex = None,
                ff_contentType = TypeByExtension env (fileExtension filePath),
                ff_contentLength = ?n, ff_t = 0\<rparr>, w1)"
      using openFSFile_regular [OF assms] by auto
    with True fits kept show ?thesis
      by simp
  qed
qed


text \<open>
  The theorem at a file of 5 bytes with 64-bit \<open>int\<close>, and at a file of \<open>2^31\<close> bytes
  with 32-bit \<open>int\<close>.
\<close>

theorem openFSFile_regular_file_witness:
  "openFSFile (example_env 64) example_os ''/srv/f.txt''
     = (Inr \<lparr>ff_f = Some \<lparr>file_fd = 3, file_name = ''/srv/f.txt''\<rparr>, ff_dirIndex = None,
             ff_contentType = ''text/plain; charset=utf-8'', ff_contentLength = 5, ff_t = 0\<rparr>,
        \<lparr>next_fd = 4, open_fds = [3]\<rparr>)
   \<and> openFSFile (example_env 32) example_os ''/srv/big''
     = (Inl (ErrTooBigFile 2147483648), \<lparr>next_fd = 4, open_fds = []\<rparr>)"
proof -
  let ?f = "\<lparr>file_fd = 3, file_name = ''/srv/f.txt''\<rparr>"
  let ?g = "\<lparr>file_fd = 3, file_name = ''/srv/big''\<rparr>"
  let ?w1 = "\<lparr>next_fd = 4, open_fds = [3]\<rparr>"
  have o1: "os_Open (env_fs (example_env 64)) example_os ''/srv/f.txt'' = (Inr ?f, ?w1)"
    by (simp add: example_env_def os_Open_def example_fs_def example_os_def file_entry_def dir_entry_def)
  have s1: "file_Stat (env_fs (example_env 64)) ?f = Inr \<lparr>info_IsDir = False, info_Size = 5\<rparr>"
    by (simp add: example_env_def file_Stat_def example_fs_def file_entry_def dir_entry_def)
  have o2: "os_Open (env_fs (example_env 32)) example_os ''/srv/big'' = (Inr ?g, ?w1)"
    by (simp add: example_env_def os_Open_def example_fs_def example_os_def file_entry_def dir_entry_def)
  have s2: "file_Stat (env_fs (example_env 32)) ?g = Inr \<lparr>info_IsDir = False, info_Size = 2 ^ 31\<rparr>"
    by (simp add: example_env_def file_Stat_def example_fs_def file_entry_def dir_entry_def)
  have e: "fileExtension ''/srv/f.txt'' = ''.txt''"
    by (simp add: fileExtension_def Let_def)
  have a: "openFSFile (example_env 64) example_os ''/srv/f.txt''
     = (Inr \<lparr>ff_f = Some ?f, ff_dirIndex = None,
             ff_contentType = ''text/plain; charset=utf-8'', ff_contentLength = 5, ff_t = 0\<rparr>, ?w1)"
    using openFSFile_regular_file [OF o1 s1]
    by (simp add: example_env_def e example_mime_def)
  have b: "openFSFile (example_env 32) example_os ''/srv/big''
     = (Inl (ErrTooBigFile 2147483648), \<lparr>next_fd = 4, open_fds = []\<rparr>)"
    using openFSFile_regular_file [OF o2 s2]
    by (simp add: example_env_def file_Close_def)
  from a b show ?thesis by simp
qed

subsection \<open>The extension of a path\<close>

text \<open>
  C10. \<open>fileExtension\<close> returns the suffix of the whole path that starts at its last
  \<open>.\<close>, and the empty string when the path has no \<open>.\<close>; so for \<open>/a.b/c\<close>, whose last
  \<open>.\<close> lies in a directory component, the extension is \<open>.b/c\<close> and spans a \<open>/\<close>.
  \<open>openFSFile\<close> gives the content type of a regular file from the extension of its full
  path.
\<close>

theorem fileExtension_from_last_dot:
  "(CHR ''.'' \<notin> set path \<longrightarrow> fileExtension path = [])
   \<and> (path = pre @ CHR ''.'' # suf \<and> CHR ''.'' \<notin> set suf
         \<longrightarrow> fileExtension path = CHR ''.'' # suf)
   \<and> fileExtension ''/a.b/c'' = ''.b/c''
   \<and> (os_Open (env_fs env) w path = (Inr f, w1) \<and> file_Stat (env_fs env) f = Inr info
         \<and> \<not> info_IsDir info \<and> to_int (int_bits env) (info_Size info) = info_Size info
         \<longrightarrow> (\<exists>ff w'. openFSFile env w path = (Inr ff, w')
               \<and> ff_contentType ff = TypeByExtension env (fileExtension path)))"
proof (intro conjI impI)
  show "fileExtension ''/a.b/c'' = ''.b/c''"
    by (simp add: fileExtension_def Let_def)
next
  assume "CHR ''.'' \<notin> set path"
  then show "fileExtension path = []"
    by (rule fileExtension_none)
next
  assume "path = pre @ CHR ''.'' # suf \<and> CHR ''.'' \<notin> set suf"
  then show "fileExtension path = CHR ''.'' # suf"
    by (simp add: fileExtension_suffix)
next
  assume a: "os_Open (env_fs env) w path = (Inr f, w1) \<and> file_Stat (env_fs env) f = Inr info
         \<and> \<not> info_IsDir info \<and> to_int (int_bits env) (info_Size info) = info_Size info"
  then show "\<exists>ff w'. openFSFile env w path = (Inr ff, w')
               \<and> ff_contentType ff = TypeByExtension env (fileExtension path)"
    using openFSFile_regular [of env w path f w1 info] by simp
qed

text \<open>The theorem at the file \<open>/srv/a.b/c\<close> of the example tree.\<close>

theorem fileExtension_from_last_dot_witness:
  "fileExtension ''/srv/a.b/c'' = ''.b/c''
   \<and> ff_contentType (projr (fst (openFSFile (example_env 64) example_os ''/srv/a.b/c'')))
       = example_mime ''.b/c''"
proof -
  let ?f = "\<lparr>file_fd = 3, file_name = ''/srv/a.b/c''\<rparr>"
  let ?w1 = "\<lparr>next_fd = 4, open_fds = [3]\<rparr>"
  let ?info = "\<lparr>info_IsDir = False, info_Size = 3\<rparr>"
  have o: "os_Open (env_fs (example_env 64)) example_os ''/srv/a.b/c'' = (Inr ?f, ?w1)"
    by (simp add: example_env_def os_Open_def example_fs_def example_os_def file_entry_def dir_entry_def)
  have s: "file_Stat (env_fs (example_env 64)) ?f = Inr ?info"
    by (simp add: example_env_def file_Stat_def example_fs_def file_entry_def dir_entry_def)
  have r: "to_int (int_bits (example_env 64)) (info_Size ?info) = info_Size ?info"
    by (simp add: example_env_def to_int_eq_iff)
  note th = fileExtension_from_last_dot [of "''/srv/a.b/c''" "''/srv/a''" "''b/c''"
      "example_env 64" example_os ?f ?w1 ?info]
  from th have e1: "fileExtension ''/srv/a.b/c'' = ''.b/c''"
    by simp
  from th o s r have "\<exists>ff w'. openFSFile (example_env 64) example_os ''/srv/a.b/c'' = (Inr ff, w')
      \<and> ff_contentType ff = TypeByExtension (example_env 64) (fileExtension ''/srv/a.b/c'')"
    by (elim conjE) (erule mp, intro conjI; assumption?; simp)
  then have "ff_contentType (projr (fst (openFSFile (example_env 64) example_os ''/srv/a.b/c'')))
       = example_mime ''.b/c''"
    by (auto simp: e1 example_env_def)
  with e1 show ?thesis by simp
qed

subsection \<open>Releasing and acquiring readers\<close>

text \<open>
  C4, as the code has it. \<open>Close\<close> never panics, whatever the offset of the reader: it
  clears the binding, sets the offset to zero and puts the reader into the pool. The
  check for a non-zero offset is made when a reader is taken out of the pool:
  \<open>Reader\<close> panics exactly when the pooled reader it got has a positive offset. So a
  reader that was released with \<open>Close\<close> is acquired again without a panic, at offset
  zero and bound to the new descriptor.
\<close>

theorem Close_resets_offset:
  "Close r pool = (None, \<lparr>r_f = None, r_dirIndex = None, r_offset = 0\<rparr> # pool)
   \<and> (\<exists>r'. Reader ff (snd (Close r pool)) = (Inr r', pool) \<and> r_offset r' = 0
         \<and> r_f r' = ff_f ff \<and> r_dirIndex r' = ff_dirIndex ff)
   \<and> ((\<exists>p. Reader_of ff v = Inl p) \<longleftrightarrow> (\<exists>r0. v = Some r0 \<and> 0 < r_offset r0))"
  by (cases v) (auto simp: Close_def Reader_def Reader_of_def pool_Put_def pool_Get_def Let_def)

text \<open>The check at acquisition, at a pooled reader with offset 2.\<close>

theorem Close_resets_offset_witness:
  "Reader_of \<lparr>ff_f = None, ff_dirIndex = Some ''abc'', ff_contentType = ''text/html'',
       ff_contentLength = 3, ff_t = 0\<rparr> (Some \<lparr>r_f = None, r_dirIndex = None, r_offset = 2\<rparr>)
     = Inl (Panic ''BUG: fsFileReader with non-nil offset found in the pool'')"
proof -
  let ?ff = "\<lparr>ff_f = None, ff_dirIndex = Some ''abc'', ff_contentType = ''text/html'',
       ff_contentLength = 3, ff_t = 0\<rparr>"
  let ?r = "\<lparr>r_f = None, r_dirIndex = None, r_offset = 2\<rparr>"
  have "\<exists>p. Reader_of ?ff (Some ?r) = Inl p"
    using Close_resets_offset [of ?r "[]" ?ff "Some ?r"] by simp
  then show ?thesis
    by (auto simp: Reader_of_def)
qed

text \<open>
  C4 as it is written fails: releasing a reader whose offset is 2 returns normally, and
  the reader is in the pool with its offset reset to zero.
\<close>

theorem Close_nonzero_offset_no_panic:
  "Close \<lparr>r_f = None, r_dirIndex = Some ''abc'', r_offset = 2\<rparr> []
     = (None, [\<lparr>r_f = None, r_dirIndex = None, r_offset = 0\<rparr>])"
  by (simp add: Close_def pool_Put_def)

subsection \<open>Reading through a cursor\<close>

lemma Read_generated:
  assumes "r_f r = None" and "0 \<le> r_offset r"
    and "r_offset r \<le> int (length (bytes_of (r_dirIndex r)))"
  shows "Read env r k =
    (if r_offset r = int (length (bytes_of (r_dirIndex r))) then (Inr ([], Some EOF), r)
     else (Inr (take k (drop (nat (r_offset r)) (bytes_of (r_dirIndex r))), None),
           r\<lparr>r_offset := r_offset r
              + int (length (take k (drop (nat (r_offset r)) (bytes_of (r_dirIndex r)))))\<rparr>))"
  using assms by (simp add: Read_def Let_def)

lemma read_calls_generated:
  assumes "r_f r = None" and "0 \<le> r_offset r"
    and "r_offset r \<le> int (length (bytes_of (r_dirIndex r)))"
    and "read_calls env r ks = (out, eof, r')"
  shows "out = take (sum_list ks) (drop (nat (r_offset r)) (bytes_of (r_dirIndex r)))
    \<and> (eof \<longrightarrow> out = drop (nat (r_offset r)) (bytes_of (r_dirIndex r)))"
  using assms
proof (induction ks arbitrary: r out eof r')
  case Nil
  then show ?case by simp
next
  case (Cons k ks)
  let ?buf = "bytes_of (r_dirIndex r)"
  let ?rest = "drop (nat (r_offset r)) ?buf"
  show ?case
  proof (cases "r_offset r = int (length ?buf)")
    case True
    with Cons.prems show ?thesis
      by (simp add: Read_generated)
  next
    case False
    let ?data = "take k ?rest"
    let ?r1 = "r\<lparr>r_offset := r_offset r + int (length ?data)\<rparr>"
    obtain out1 eof1 r1' where rc: "read_calls env ?r1 ks = (out1, eof1, r1')"
      by (cases "read_calls env ?r1 ks") auto
    have inv: "r_f ?r1 = None" "0 \<le> r_offset ?r1"
      "r_offset ?r1 \<le> int (length (bytes_of (r_dirIndex ?r1)))"
      using Cons.prems(1-3) by auto
    have b1: "bytes_of (r_dirIndex ?r1) = ?buf"
      by simp
    from Cons.IH [OF inv rc]
    have ih: "out1 = take (sum_list ks) (drop (nat (r_offset ?r1)) ?buf)"
      "eof1 \<longrightarrow> out1 = drop (nat (r_offset ?r1)) ?buf"
      unfolding b1 by blast+
    have off: "nat (r_offset ?r1) = nat (r_offset r) + length ?data"
      using Cons.prems(2) by (simp add: nat_add_distrib)
    have d: "drop (nat (r_offset ?r1)) ?buf = drop (length ?data) ?rest"
      by (simp only: off drop_drop add.commute)
    have d2: "drop (length ?data) ?rest = drop k ?rest"
      by (cases "k \<le> length ?rest") (simp_all add: min_def)
    from Cons.prems(4) False rc have res: "out = ?data @ out1" "eof = eof1"
      by (simp_all add: Read_generated [OF Cons.prems(1-3)])
    have "?data @ take (sum_list ks) (drop k ?rest) = take (k + sum_list ks) ?rest"
      by (simp only: take_add)
    moreover have "?data @ drop k ?rest = ?rest"
      by (rule append_take_drop_id)
    ultimately have "?data @ take (sum_list ks) (drop (nat (r_offset ?r1)) ?buf)
        = take (sum_list (k # ks)) ?rest"
      and "?data @ drop (nat (r_offset ?r1)) ?buf = ?rest"
      by (simp_all only: d d2 sum_list.Cons)
    with res ih show ?thesis
      by metis
  qed
qed

lemma read_calls_reaches_EOF:
  assumes "r_f r = None" and "0 \<le> r_offset r"
    and "r_offset r \<le> int (length (bytes_of (r_dirIndex r)))"
    and "\<forall>k\<in>set ks. 0 < k"
    and "length (bytes_of (r_dirIndex r)) - nat (r_offset r) < length ks"
  shows "fst (snd (read_calls env r ks))"
  using assms
proof (induction ks arbitrary: r)
  case Nil
  then show ?case by simp
next
  case (Cons k ks)
  let ?buf = "bytes_of (r_dirIndex r)"
  let ?rest = "drop (nat (r_offset r)) ?buf"
  show ?case
  proof (cases "r_offset r = int (length ?buf)")
    case True
    with Cons.prems show ?thesis
      by (simp add: Read_generated)
  next
    case False
    let ?data = "take k ?rest"
    let ?r1 = "r\<lparr>r_offset := r_offset r + int (length ?data)\<rparr>"
    have pos: "0 < k" using Cons.prems(4) by simp
    have lt: "nat (r_offset r) < length ?buf"
      using False Cons.prems(2,3) by linarith
    then have ld: "0 < length ?data"
      using pos by simp
    have inv: "r_f ?r1 = None" "0 \<le> r_offset ?r1"
      "r_offset ?r1 \<le> int (length (bytes_of (r_dirIndex ?r1)))"
      using Cons.prems(1-3) by auto
    have "length (bytes_of (r_dirIndex ?r1)) - nat (r_offset ?r1) < length ks"
      using Cons.prems(2,5) ld lt by (simp add: nat_add_distrib)
    with Cons.IH [OF inv] Cons.prems(4) have "fst (snd (read_calls env ?r1 ks))"
      by simp
    with False show ?thesis
      by (auto simp add: Read_generated [OF Cons.prems(1-3)] split: prod.splits)
  qed
qed

text \<open>
  C7. For a cursor bound to generated content (no handle) whose offset lies within the
  buffer, \<open>Read\<close> with a buffer of length \<open>k\<close> returns the bytes of the content that
  start at the offset, as many as fit, advances the offset by their number and keeps it
  within the buffer; it returns \<open>EOF\<close> (with no bytes) exactly when the offset equals the
  length of the content. Hence a consumer that starts at offset zero and calls \<open>Read\<close>
  with buffers of lengths \<open>ks\<close> receives the first \<open>sum_list ks\<close> bytes of the content;
  if it sees \<open>EOF\<close> it has received exactly the content, and it does see \<open>EOF\<close> when
  the buffers are non-empty and there are more calls than bytes. For a cursor bound
  to a handle, \<open>Read\<close> is \<open>ReadAt\<close> on that handle at the cursor's own offset, which
  advances by the number of bytes read.
\<close>

theorem Read_semantics:
  "(r_f r = None \<and> 0 \<le> r_offset r \<and> r_offset r \<le> int (length (bytes_of (r_dirIndex r)))
      \<longrightarrow> (\<exists>data err r'. Read env r k = (Inr (data, err), r')
            \<and> data = take k (drop (nat (r_offset r)) (bytes_of (r_dirIndex r)))
            \<and> r' = r\<lparr>r_offset := r_offset r + int (length data)\<rparr>
            \<and> (err = Some EOF \<longleftrightarrow> r_offset r = int (length (bytes_of (r_dirIndex r))))
            \<and> (err = Some EOF \<or> err = None)
            \<and> 0 \<le> r_offset r' \<and> r_offset r' \<le> int (length (bytes_of (r_dirIndex r')))))
   \<and> (r_f r = None \<and> r_offset r = 0
      \<longrightarrow> (\<exists>out eof r'. read_calls env r ks = (out, eof, r')
            \<and> out = take (sum_list ks) (bytes_of (r_dirIndex r))
            \<and> (eof \<longrightarrow> out = bytes_of (r_dirIndex r))
            \<and> ((\<forall>k\<in>set ks. 0 < k) \<and> length (bytes_of (r_dirIndex r)) < length ks \<longrightarrow> eof)))
   \<and> (r_f r = Some f
      \<longrightarrow> Read env r k = (Inr (ReadAt env f k (r_offset r)),
            r\<lparr>r_offset := r_offset r + int (length (fst (ReadAt env f k (r_offset r))))\<rparr>))"
proof (intro conjI impI)
  assume a: "r_f r = None \<and> 0 \<le> r_offset r \<and> r_offset r \<le> int (length (bytes_of (r_dirIndex r)))"
  then have R: "Read env r k =
    (if r_offset r = int (length (bytes_of (r_dirIndex r))) then (Inr ([], Some EOF), r)
     else (Inr (take k (drop (nat (r_offset r)) (bytes_of (r_dirIndex r))), None),
           r\<lparr>r_offset := r_offset r
              + int (length (take k (drop (nat (r_offset r)) (bytes_of (r_dirIndex r)))))\<rparr>))"
    by (simp add: Read_generated)
  show "\<exists>data err r'. Read env r k = (Inr (data, err), r')
            \<and> data = take k (drop (nat (r_offset r)) (bytes_of (r_dirIndex r)))
            \<and> r' = r\<lparr>r_offset := r_offset r + int (length data)\<rparr>
            \<and> (err = Some EOF \<longleftrightarrow> r_offset r = int (length (bytes_of (r_dirIndex r))))
            \<and> (err = Some EOF \<or> err = None)
            \<and> 0 \<le> r_offset r' \<and> r_offset r' \<le> int (length (bytes_of (r_dirIndex r')))"
  proof (cases "r_offset r = int (length (bytes_of (r_dirIndex r)))")
    case True
    with R show ?thesis by simp
  next
    case False
    with R a show ?thesis by auto
  qed
next
  assume a: "r_f r = None \<and> r_offset r = 0"
  obtain out eof r' where rc: "read_calls env r ks = (out, eof, r')"
    by (cases "read_calls env r ks") auto
  from a have inv: "r_f r = None" "0 \<le> r_offset r"
    "r_offset r \<le> int (length (bytes_of (r_dirIndex r)))"
    by simp_all
  have z: "drop (nat (r_offset r)) (bytes_of (r_dirIndex r)) = bytes_of (r_dirIndex r)"
    using a by simp
  from read_calls_generated [OF inv rc]
  have 1: "out = take (sum_list ks) (bytes_of (r_dirIndex r))"
    "eof \<longrightarrow> out = bytes_of (r_dirIndex r)"
    unfolding z by blast+
  have 2: "(\<forall>k\<in>set ks. 0 < k) \<and> length (bytes_of (r_dirIndex r)) < length ks \<longrightarrow> eof"
    using read_calls_reaches_EOF [OF inv, of ks env] rc a by simp
  from rc 1 2 show "\<exists>out eof r'. read_calls env r ks = (out, eof, r')
            \<and> out = take (sum_list ks) (bytes_of (r_dirIndex r))
            \<and> (eof \<longrightarrow> out = bytes_of (r_dirIndex r))
            \<and> ((\<forall>k\<in>set ks. 0 < k) \<and> length (bytes_of (r_dirIndex r)) < length ks \<longrightarrow> eof)"
    by blast
next
  assume "r_f r = Some f"
  then show "Read env r k = (Inr (ReadAt env f k (r_offset r)),
            r\<lparr>r_offset := r_offset r + int (length (fst (ReadAt env f k (r_offset r))))\<rparr>)"
    by (simp add: Read_def split: prod.splits)
qed


text \<open>The theorem at a cursor over the five bytes \<open>hello\<close>, read two bytes at a time.\<close>

theorem Read_semantics_witness:
  "fst (Read (example_env 64) \<lparr>r_f = None, r_dirIndex = Some ''hello'', r_offset = 0\<rparr> 2)
     = Inr (''he'', None)
   \<and> fst (read_calls (example_env 64) \<lparr>r_f = None, r_dirIndex = Some ''hello'', r_offset = 0\<rparr>
        [2, 2, 2, 2, 2, 2]) = ''hello''
   \<and> fst (snd (read_calls (example_env 64)
        \<lparr>r_f = None, r_dirIndex = Some ''hello'', r_offset = 0\<rparr> [2, 2, 2, 2, 2, 2]))"
proof -
  let ?r = "\<lparr>r_f = None, r_dirIndex = Some ''hello'', r_offset = 0\<rparr>"
  note th = Read_semantics [of ?r "example_env 64" 2 "[2, 2, 2, 2, 2, 2]"]
  have b: "bytes_of (r_dirIndex ?r) = ''hello''"
    by (simp add: bytes_of_def)
  from th have "\<exists>data err r'. Read (example_env 64) ?r 2 = (Inr (data, err), r')
      \<and> data = ''he'' \<and> (err = Some EOF \<longleftrightarrow> False) \<and> (err = Some EOF \<or> err = None)"
    by (auto simp add: bytes_of_def simp del: read_calls.simps)
  then have 1: "fst (Read (example_env 64) ?r 2) = Inr (''he'', None)"
    by auto
  from th have "\<exists>out eof r'. read_calls (example_env 64) ?r [2, 2, 2, 2, 2, 2] = (out, eof, r')
      \<and> out = ''hello'' \<and> eof"
    by (auto simp add: bytes_of_def simp del: read_calls.simps)
  then have 2: "fst (read_calls (example_env 64) ?r [2, 2, 2, 2, 2, 2]) = ''hello''"
    and 3: "fst (snd (read_calls (example_env 64) ?r [2, 2, 2, 2, 2, 2]))"
    by auto
  from 1 2 3 show ?thesis
    by simp
qed

subsection \<open>The handler and NUL bytes\<close>

lemmas example_defs = example_state_def example_env_def example_fs_def example_os_def
  example_ctx_def example_mime_def example_Update_def dir_entry_def file_entry_def

lemmas handler_defs = handleRequest_def cache_miss_def createDirIndex_def FSHandler_def
  stripPathSlashes_def strip_leading.simps strip_trailing.simps openFSFile.simps
  os_Open_def file_Stat_def file_Close_def file_Readdirnames_def to_int_def fileExtension_def
  Reader_def Reader_of_def pool_Get_def pool_Put_def ctx_Error_def ctx_Printf_def
  ctx_SetBodyStream_def ctx_SetContentType_def StatusNotFound_def StatusBadRequest_def
  IsNotExist_def Fprintf_def dquote_def EscapeString_def escape_byte_def Let_def

lemma handleRequest_NUL:
  assumes "stripPathSlashes (ctx_Path (st_ctx st)) (h_stripSlashes (st_h st)) = Inr path"
    and "CHR 0x00 \<in> set path"
  shows "handleRequest env st =
    Inr (st\<lparr>st_ctx := ctx_Error ''Are you a hacker?'' StatusBadRequest
          (ctx_Printf (LogNilByte (IndexByte path (CHR 0x00)) path) (st_ctx st))\<rparr>)"
proof -
  have "\<not> IndexByte path (CHR 0x00) < 0"
    using assms(2) by (simp add: IndexByte_neg_iff)
  then have "0 \<le> IndexByte path (CHR 0x00)"
    by simp
  then show ?thesis
    using assms(1) by (simp add: handleRequest_def Let_def)
qed

lemma strip_leading_nonpositive: "s \<le> 0 \<Longrightarrow> strip_leading p s = Inr p"
  by (subst strip_leading.simps) simp

text \<open>
  C3, as the code has it. The handler looks for a NUL byte in the path after
  \<open>stripPathSlashes\<close>. Whenever that normalised path contains a NUL byte, the handler
  logs it, reports \<open>StatusBadRequest\<close> (400) with the body \<open>Are you a hacker?\<close>, and
  leaves the cache, the pool and the open files as they were: nothing is resolved or
  served. That is the case when the strip count is zero (or negative) and the raw path
  contains a NUL byte anywhere, and when the raw path starts with \<open>/\<close> and a NUL byte
  lies in what is left after the stripped leading segments.
\<close>

theorem handleRequest_rejects_NUL:
  "(stripPathSlashes (ctx_Path (st_ctx st)) (h_stripSlashes (st_h st)) = Inr path
      \<and> CHR 0x00 \<in> set path
    \<or> h_stripSlashes (st_h st) \<le> 0 \<and> CHR 0x00 \<in> set (ctx_Path (st_ctx st))
    \<or> ctx_Path (st_ctx st) \<noteq> [] \<and> hd (ctx_Path (st_ctx st)) = CHR ''/''
      \<and> CHR 0x00 \<in> set ((remove_segment ^^ nat (h_stripSlashes (st_h st))) (ctx_Path (st_ctx st))))
   \<longrightarrow> (\<exists>st' n p. handleRequest env st = Inr st'
        \<and> ctx_status (st_ctx st') = StatusBadRequest \<and> StatusBadRequest = 400
        \<and> ctx_body (st_ctx st') = BodyString ''Are you a hacker?''
        \<and> ctx_log (st_ctx st') = ctx_log (st_ctx st) @ [LogNilByte n p]
        \<and> st_h st' = st_h st \<and> st_os st' = st_os st \<and> st_pool st' = st_pool st)"
proof
  let ?raw = "ctx_Path (st_ctx st)"
  let ?s = "h_stripSlashes (st_h st)"
  assume a: "stripPathSlashes ?raw ?s = Inr path \<and> CHR 0x00 \<in> set path
    \<or> ?s \<le> 0 \<and> CHR 0x00 \<in> set ?raw
    \<or> ?raw \<noteq> [] \<and> hd ?raw = CHR ''/'' \<and> CHR 0x00 \<in> set ((remove_segment ^^ nat ?s) ?raw)"
  have nz: "CHR 0x00 \<noteq> CHR ''/''"
    by simp
  have "\<exists>q. stripPathSlashes ?raw ?s = Inr q \<and> CHR 0x00 \<in> set q"
  proof -
    consider (1) "stripPathSlashes ?raw ?s = Inr path \<and> CHR 0x00 \<in> set path"
      | (2) "?s \<le> 0 \<and> CHR 0x00 \<in> set ?raw"
      | (3) "?raw \<noteq> [] \<and> hd ?raw = CHR ''/'' \<and> CHR 0x00 \<in> set ((remove_segment ^^ nat ?s) ?raw)"
      using a by blast
    then show ?thesis
    proof cases
      case 1
      then show ?thesis by blast
    next
      case 2
      then have "stripPathSlashes ?raw ?s = Inr (remove_trailing_slashes ?raw)"
        by (simp add: stripPathSlashes_def strip_leading_nonpositive strip_trailing_eq)
      moreover have "CHR 0x00 \<in> set (remove_trailing_slashes ?raw)"
        using 2 remove_trailing_slashes_set [OF nz, of ?raw] by simp
      ultimately show ?thesis by blast
    next
      case 3
      then have "stripPathSlashes ?raw ?s
          = Inr (remove_trailing_slashes ((remove_segment ^^ nat ?s) ?raw))"
        by (simp add: stripPathSlashes_def strip_leading_eq strip_trailing_eq)
      moreover have "CHR 0x00 \<in> set (remove_trailing_slashes ((remove_segment ^^ nat ?s) ?raw))"
        using 3 remove_trailing_slashes_set [OF nz, of "(remove_segment ^^ nat ?s) ?raw"] by simp
      ultimately show ?thesis by blast
    qed
  qed
  then obtain q where q: "stripPathSlashes ?raw ?s = Inr q" "CHR 0x00 \<in> set q"
    by blast
  show "\<exists>st' n p. handleRequest env st = Inr st'
        \<and> ctx_status (st_ctx st') = StatusBadRequest \<and> StatusBadRequest = 400
        \<and> ctx_body (st_ctx st') = BodyString ''Are you a hacker?''
        \<and> ctx_log (st_ctx st') = ctx_log (st_ctx st) @ [LogNilByte n p]
        \<and> st_h st' = st_h st \<and> st_os st' = st_os st \<and> st_pool st' = st_pool st"
    by (simp add: handleRequest_NUL [OF q] ctx_Error_def ctx_Printf_def StatusBadRequest_def)
qed

text \<open>The theorem at \<open>/a/f\<close>, NUL, \<open>.txt\<close> with one segment stripped.\<close>

theorem handleRequest_rejects_NUL_witness:
  "ctx_status (st_ctx (projr (handleRequest (example_env 64)
      (example_state 1 (''/a/f'' @ [CHR 0x00] @ ''.txt''))))) = 400"
proof -
  let ?raw = "''/a/f'' @ [CHR 0x00] @ ''.txt''"
  let ?st = "example_state 1 ?raw"
  have "ctx_Path (st_ctx ?st) \<noteq> [] \<and> hd (ctx_Path (st_ctx ?st)) = CHR ''/''
      \<and> CHR 0x00 \<in> set ((remove_segment ^^ nat (h_stripSlashes (st_h ?st))) (ctx_Path (st_ctx ?st)))"
    by (simp add: example_state_def example_ctx_def FSHandler_def remove_segment_def Let_def)
  with handleRequest_rejects_NUL [of ?st "[]" "example_env 64"]
  have "\<exists>st'. handleRequest (example_env 64) ?st = Inr st'
        \<and> ctx_status (st_ctx st') = StatusBadRequest \<and> StatusBadRequest = 400"
    by blast
  then show ?thesis
    by auto
qed

text \<open>
  C3 as it is written fails: with one segment stripped, the raw path \<open>/a\<close>, NUL,
  \<open>/f.txt\<close> contains a NUL byte, in the segment that is stripped; the handler resolves
  \<open>/srv/f.txt\<close>, caches it and serves it, and logs nothing.
\<close>

theorem handleRequest_serves_NUL_in_stripped_segment:
  "CHR 0x00 \<in> set (''/a'' @ [CHR 0x00] @ ''/f.txt'')
   \<and> handleRequest (example_env 64) (example_state 1 (''/a'' @ [CHR 0x00] @ ''/f.txt''))
     = Inr \<lparr>st_h = \<lparr>h_root = ''/srv'', h_stripSlashes = 1,
               h_cache = [(''/f.txt'', \<lparr>ff_f = Some \<lparr>file_fd = 3, file_name = ''/srv/f.txt''\<rparr>,
                 ff_dirIndex = None, ff_contentType = ''text/plain; charset=utf-8'',
                 ff_contentLength = 5, ff_t = 0\<rparr>)]\<rparr>,
            st_pool = [], st_os = \<lparr>next_fd = 4, open_fds = [3]\<rparr>,
            st_ctx = \<lparr>ctx_Path = ''/a'' @ [CHR 0x00] @ ''/f.txt'',
               ctx_URI = ''/a'' @ [CHR 0x00] @ ''/f.txt'', ctx_log = [], ctx_status = 200,
               ctx_body = BodyStream \<lparr>r_f = Some \<lparr>file_fd = 3, file_name = ''/srv/f.txt''\<rparr>,
                 r_dirIndex = None, r_offset = 0\<rparr> 5,
               ctx_contentType = ''text/plain; charset=utf-8''\<rparr>\<rparr>"
  by (simp add: example_defs handler_defs)

subsection \<open>Descriptors in the cache\<close>

lemma openFSFile_Inr:
  "openFSFile env w p = (Inr ff, w') \<Longrightarrow> ff_f ff \<noteq> None \<and> ff_dirIndex ff = None \<and> ff_t ff = 0"
proof (induction env w p arbitrary: ff w' rule: openFSFile.induct)
  case (1 env w filePath)
  show ?case
  proof (cases "os_Open (env_fs env) w filePath")
    case (Pair x w1)
    show ?thesis
    proof (cases x)
      case (Inl err)
      with Pair "1.prems" show ?thesis
        by (subst (asm) openFSFile.simps) simp
    next
      case (Inr f)
      show ?thesis
      proof (cases "file_Stat (env_fs env) f")
        case (Inl err)
        with Pair Inr "1.prems" show ?thesis
          by (subst (asm) openFSFile.simps) simp
      next
        case st: (Inr info)
        show ?thesis
        proof (cases "info_IsDir info")
          case True
          obtain res w3 where rec: "openFSFile env (file_Close w1 f) (filePath @ ''/index.html'') = (res, w3)"
            by (cases "openFSFile env (file_Close w1 f) (filePath @ ''/index.html'')") auto
          from "1.prems" Pair Inr st True rec have "res = Inr ff"
            by (subst (asm) openFSFile.simps) (auto simp: Let_def split: sum.splits if_splits)
          with "1.IH" [OF Pair [symmetric] Inr st True refl refl] rec show ?thesis
            by simp
        next
          case False
          with Pair Inr st "1.prems" show ?thesis
            using openFSFile_regular [of env w filePath f w1 info]
            by (auto split: if_splits)
        qed
      qed
    qed
  qed
qed

lemma createDirIndex_Inr:
  "createDirIndex env w base p = (Inr ff, w') \<Longrightarrow>
     ff_f ff = None \<and> ff_dirIndex ff \<noteq> None \<and> ff_t ff = 0"
  by (auto simp: createDirIndex_def Let_def split: prod.splits sum.splits)

lemma update_fresh: "map_of al k = None \<Longrightarrow> AList.update k v al = al @ [(k, v)]"
  by (induction al) (auto split: if_splits)

lemma cache_miss_Some:
  assumes "cache_miss env st path = (Some ff, st')"
  shows "one_populated ff \<and> ff_t ff = 0
    \<and> h_cache (st_h st') = AList.update path ff (h_cache (st_h st))"
  using assms
  by (auto simp: cache_miss_def Let_def one_populated_def
      split: prod.splits sum.splits if_splits
      dest!: openFSFile_Inr createDirIndex_Inr)

lemma cache_miss_None:
  assumes "cache_miss env st path = (None, st')"
  shows "h_cache (st_h st') = h_cache (st_h st)"
  using assms
  by (auto simp: cache_miss_def Let_def split: prod.splits sum.splits if_splits)

lemma handleRequest_cache:
  assumes "handleRequest env st = Inr st'"
  shows "h_cache (st_h st') = h_cache (st_h st)
    \<or> (\<exists>path ff. map_of (h_cache (st_h st)) path = None \<and> one_populated ff \<and> ff_t ff = 0
          \<and> h_cache (st_h st') = h_cache (st_h st) @ [(path, ff)])"
proof (cases "stripPathSlashes (ctx_Path (st_ctx st)) (h_stripSlashes (st_h st))")
  case (Inl p)
  with assms show ?thesis
    by (simp add: handleRequest_def)
next
  case (Inr path)
  show ?thesis
  proof (cases "0 \<le> IndexByte path (CHR 0x00)")
    case True
    with assms Inr show ?thesis
      by (auto simp: handleRequest_def Let_def)
  next
    case nonul: False
    show ?thesis
    proof (cases "map_of (h_cache (st_h st)) path")
      case (Some ff)
      with assms Inr nonul show ?thesis
        by (auto simp: handleRequest_def Let_def split: prod.splits sum.splits)
    next
      case None
      obtain r st1 where cm: "cache_miss env st path = (r, st1)"
        by (cases "cache_miss env st path") auto
      show ?thesis
      proof (cases r)
        case n: None
        with assms Inr nonul None cm cache_miss_None [of env st path st1] show ?thesis
          by (auto simp: handleRequest_def Let_def)
      next
        case s: (Some ff)
        with cm cache_miss_Some [of env st path ff st1]
        have "one_populated ff" "ff_t ff = 0"
          "h_cache (st_h st1) = h_cache (st_h st) @ [(path, ff)]"
          using None by (simp_all add: update_fresh)
        moreover from assms Inr nonul None cm s
        have "h_cache (st_h st') = h_cache (st_h st1)"
          by (auto simp: handleRequest_def Let_def split: prod.splits sum.splits)
        ultimately show ?thesis
          using None by auto
      qed
    qed
  qed
qed

lemma sweep_subset: "set (fst (sweep now cache os0)) \<subseteq> set cache"
  by (induction now cache os0 rule: sweep.induct) (auto split: prod.splits)

lemma sweep_unstamped:
  assumes "\<forall>kv\<in>set cache. ff_t (snd kv) = 0" and "FSHandlerCacheDuration < now"
  shows "fst (sweep now cache os0) = []"
  using assms
proof (induction now cache os0 rule: sweep.induct)
  case (1 now os0)
  then show ?case by simp
next
  case (2 now k v kvs os0)
  have "FSHandlerCacheDuration < time_Sub now 0"
    using "2.prems"(2)
    by (auto simp: time_Sub_def Let_def maxDuration_def minDuration_def FSHandlerCacheDuration_def Second_def)
  with 2 show ?case
    by simp
qed

lemma cleanCache_after_handleRequest:
  assumes "\<forall>kv\<in>set (h_cache (st_h st)). ff_t (snd kv) = 0"
    and "handleRequest env st = Inr st'" and "FSHandlerCacheDuration < now"
  shows "h_cache (st_h (cleanCache now st')) = []"
proof -
  from handleRequest_cache [OF assms(2)] assms(1)
  have "\<forall>kv\<in>set (h_cache (st_h st')). ff_t (snd kv) = 0"
    by auto
  from sweep_unstamped [OF this assms(3), of "st_os st'"] show ?thesis
    by (auto simp add: cleanCache_def split: prod.splits)
qed

text \<open>
  C9. A descriptor returned by \<open>openFSFile\<close> has a handle and no generated content; one
  returned by \<open>createDirIndex\<close> has generated content and no handle. A call of the
  handler leaves every entry of the cache as it was and adds at most one, under a key
  that was absent, with exactly one of the two populated; \<open>cleanCache\<close> only removes
  entries. So when every cached descriptor has exactly one of the two populated, this
  is still so after a request and after a sweep, and no entry changes which one it is.
\<close>

theorem cache_entries_one_populated:
  "(openFSFile env w p = (Inr ff, w') \<longrightarrow> ff_f ff \<noteq> None \<and> ff_dirIndex ff = None)
   \<and> (createDirIndex env w base p = (Inr ff, w') \<longrightarrow> ff_f ff = None \<and> ff_dirIndex ff \<noteq> None)
   \<and> (handleRequest env st = Inr st' \<longrightarrow>
        (\<forall>kv\<in>set (h_cache (st_h st')).
            kv \<in> set (h_cache (st_h st))
            \<or> map_of (h_cache (st_h st)) (fst kv) = None \<and> one_populated (snd kv)))
   \<and> set (h_cache (st_h (cleanCache now st))) \<subseteq> set (h_cache (st_h st))
   \<and> ((\<forall>kv\<in>set (h_cache (st_h st)). one_populated (snd kv)) \<longrightarrow>
        (handleRequest env st = Inr st' \<longrightarrow> (\<forall>kv\<in>set (h_cache (st_h st')). one_populated (snd kv)))
        \<and> (\<forall>kv\<in>set (h_cache (st_h (cleanCache now st))). one_populated (snd kv)))"
proof (intro conjI impI)
  assume "openFSFile env w p = (Inr ff, w')"
  then show "ff_f ff \<noteq> None" and "ff_dirIndex ff = None"
    by (auto dest: openFSFile_Inr)
next
  assume "createDirIndex env w base p = (Inr ff, w')"
  then show "ff_f ff = None" and "ff_dirIndex ff \<noteq> None"
    by (auto dest: createDirIndex_Inr)
next
  assume "handleRequest env st = Inr st'"
  from handleRequest_cache [OF this]
  show "\<forall>kv\<in>set (h_cache (st_h st')).
            kv \<in> set (h_cache (st_h st))
            \<or> map_of (h_cache (st_h st)) (fst kv) = None \<and> one_populated (snd kv)"
    by auto
next
  show sub: "set (h_cache (st_h (cleanCache now st))) \<subseteq> set (h_cache (st_h st))"
    using sweep_subset [of now "h_cache (st_h st)" "st_os st"]
    by (auto simp: cleanCache_def split: prod.splits)
  assume inv: "\<forall>kv\<in>set (h_cache (st_h st)). one_populated (snd kv)"
  with sub show "\<forall>kv\<in>set (h_cache (st_h (cleanCache now st))). one_populated (snd kv)"
    by blast
  assume "handleRequest env st = Inr st'"
  from handleRequest_cache [OF this] inv
  show "\<forall>kv\<in>set (h_cache (st_h st')). one_populated (snd kv)"
    by auto
qed


text \<open>
  The theorem at the file \<open>/srv/f.txt\<close>, at the listing of \<open>/srv/d\<close>, and at the request
  for \<open>/d\<close> on an empty cache.
\<close>

theorem cache_entries_one_populated_witness:
  "ff_f (projr (fst (openFSFile (example_env 64) example_os ''/srv/f.txt''))) \<noteq> None
   \<and> ff_dirIndex (projr (fst (createDirIndex (example_env 64) example_os ''/d'' ''/srv/d''))) \<noteq> None
   \<and> list_all (\<lambda>kv. one_populated (snd kv))
        (h_cache (st_h (projr (handleRequest (example_env 64) (example_state 0 ''/d'')))))"
proof -
  let ?env = "example_env 64"
  let ?st = "example_state 0 ''/d''"
  obtain ff1 w1 where o: "openFSFile ?env example_os ''/srv/f.txt'' = (Inr ff1, w1)"
    by (simp add: example_defs handler_defs)
  obtain ff2 w2 where c: "createDirIndex ?env example_os ''/d'' ''/srv/d'' = (Inr ff2, w2)"
    by (simp add: example_defs handler_defs)
  obtain st' where h: "handleRequest ?env ?st = Inr st'"
    by (simp add: example_defs handler_defs)
  have e: "\<forall>kv\<in>set (h_cache (st_h ?st)). one_populated (snd kv)"
    by (simp add: example_state_def FSHandler_def Let_def)
  have 1: "ff_f ff1 \<noteq> None"
    using cache_entries_one_populated [of ?env example_os "''/srv/f.txt''" ff1 w1] o by blast
  have 2: "ff_dirIndex ff2 \<noteq> None"
    using cache_entries_one_populated [of ?env example_os "''/srv/d''" ff2 w2 "''/d''"] c by blast
  have 3: "\<forall>kv\<in>set (h_cache (st_h st')). one_populated (snd kv)"
    using cache_entries_one_populated [of ?env _ _ _ _ _ ?st st'] h e by blast
  from 1 2 3 show ?thesis
    by (simp add: o c h list_all_iff)
qed

text \<open>
  C1 does not hold of the code. Neither \<open>openFSFile\<close> nor \<open>createDirIndex\<close> nor the
  handler assigns the field \<open>t\<close>, so every cached descriptor carries the zero \<open>Time\<close>,
  and \<open>cleanCache\<close> finds every entry older than \<open>FSHandlerCacheDuration\<close>. Here the
  handler serves \<open>/f.txt\<close> from an empty cache and caches the descriptor with \<open>t = 0\<close>;
  a sweep at a clock reading of the year 2025, however soon after the request, removes
  the entry and closes its handle, which the body stream of the response still reads.
\<close>

theorem cleanCache_evicts_fresh_entry:
  "handleRequest (example_env 64) (example_state 0 ''/f.txt'')
     = Inr \<lparr>st_h = \<lparr>h_root = ''/srv'', h_stripSlashes = 0,
               h_cache = [(''/f.txt'', \<lparr>ff_f = Some \<lparr>file_fd = 3, file_name = ''/srv/f.txt''\<rparr>,
                 ff_dirIndex = None, ff_contentType = ''text/plain; charset=utf-8'',
                 ff_contentLength = 5, ff_t = 0\<rparr>)]\<rparr>,
            st_pool = [], st_os = \<lparr>next_fd = 4, open_fds = [3]\<rparr>,
            st_ctx = \<lparr>ctx_Path = ''/f.txt'', ctx_URI = ''/f.txt'', ctx_log = [],
               ctx_status = 200,
               ctx_body = BodyStream \<lparr>r_f = Some \<lparr>file_fd = 3, file_name = ''/srv/f.txt''\<rparr>,
                 r_dirIndex = None, r_offset = 0\<rparr> 5,
               ctx_contentType = ''text/plain; charset=utf-8''\<rparr>\<rparr>
   \<and> h_cache (st_h (cleanCache (63900000000 * Second)
        (projr (handleRequest (example_env 64) (example_state 0 ''/f.txt''))))) = []
   \<and> open_fds (st_os (cleanCache (63900000000 * Second)
        (projr (handleRequest (example_env 64) (example_state 0 ''/f.txt''))))) = []"
  by (simp add: example_defs handler_defs cleanCache_def time_Sub_def maxDuration_def
      minDuration_def FSHandlerCacheDuration_def Second_def)

subsection \<open>openFSFile on a directory\<close>

lemma openFSFile_dir:
  assumes "os_Open (env_fs env) w filePath = (Inr d, w1)"
    and "file_Stat (env_fs env) d = Inr info" and "info_IsDir info"
  shows "openFSFile env w filePath =
    (case openFSFile env (file_Close w1 d) (filePath @ ''/index.html'') of
       (Inr ff, w3) \<Rightarrow> (Inr ff, w3)
     | (Inl err, w3) \<Rightarrow>
         if \<not> IsNotExist err then (Inl err, w3) else (Inl errDirIndexRequired, w3))"
  using assms by (subst openFSFile.simps) (simp add: Let_def)

lemma openFSFile_no_open:
  assumes "os_Open (env_fs env) w filePath = (Inl err, w1)"
  shows "openFSFile env w filePath = (Inl (OsError err), w1)"
  using assms by (subst openFSFile.simps) simp

lemma openFSFile_no_stat:
  assumes "os_Open (env_fs env) w filePath = (Inr f, w1)"
    and "file_Stat (env_fs env) f = Inl err"
  shows "openFSFile env w filePath = (Inl (OsError err), file_Close w1 f)"
  using assms by (subst openFSFile.simps) simp

lemma os_Open_Inl: "os_Open fs w p = (Inl err, w1) \<Longrightarrow> w1 = w"
  by (auto simp: os_Open_def split: option.splits)

lemma openFSFile_fds:
  "openFSFile env w p = (res, w') \<Longrightarrow>
     next_fd w \<le> next_fd w' \<and> set (open_fds w') \<subseteq> set (open_fds w) \<union> {next_fd w..<next_fd w'}"
proof (induction env w p arbitrary: res w' rule: openFSFile.induct)
  case (1 env w filePath)
  show ?case
  proof (cases "os_Open (env_fs env) w filePath")
    case (Pair x w1)
    show ?thesis
    proof (cases x)
      case (Inl err)
      with Pair "1.prems" openFSFile_no_open [of env w filePath err w1] os_Open_Inl [of "env_fs env" w filePath err w1]
      show ?thesis by auto
    next
      case (Inr f)
      with Pair have op: "os_Open (env_fs env) w filePath = (Inr f, w1)"
        by simp
      note o = os_Open_Inr [OF op]
      show ?thesis
      proof (cases "file_Stat (env_fs env) f")
        case (Inl err)
        with op "1.prems" openFSFile_no_stat [of env w filePath f w1 err] o show ?thesis
          by (auto simp: file_Close_def)
      next
        case st: (Inr info)
        show ?thesis
        proof (cases "info_IsDir info")
          case True
          obtain r3 w3 where rec: "openFSFile env (file_Close w1 f) (filePath @ ''/index.html'') = (r3, w3)"
            by (cases "openFSFile env (file_Close w1 f) (filePath @ ''/index.html'')") auto
          from "1.IH" [OF Pair [symmetric] Inr st True refl refl rec]
          have "next_fd (file_Close w1 f) \<le> next_fd w3"
            and "set (open_fds w3) \<subseteq> set (open_fds (file_Close w1 f)) \<union> {next_fd (file_Close w1 f)..<next_fd w3}"
            by blast+
          moreover have "w' = w3"
            using "1.prems" rec openFSFile_dir [OF op st True]
            by (auto split: sum.splits if_splits)
          ultimately show ?thesis
            using o by (auto simp: file_Close_def)
        next
          case False
          with op st "1.prems" o show ?thesis
            using openFSFile_regular [of env w filePath f w1 info]
            by (auto simp: file_Close_def split: if_splits)
        qed
      qed
    qed
  qed
qed

lemma openFSFile_html:
  "openFSFile env w p = (Inr ff, w') \<Longrightarrow> fileExtension p = ''.html'' \<Longrightarrow>
     ff_contentType ff = TypeByExtension env ''.html''"
proof (induction env w p arbitrary: ff w' rule: openFSFile.induct)
  case (1 env w filePath)
  show ?case
  proof (cases "os_Open (env_fs env) w filePath")
    case (Pair x w1)
    show ?thesis
    proof (cases x)
      case (Inl err)
      with Pair "1.prems" openFSFile_no_open [of env w filePath err w1]
      show ?thesis by auto
    next
      case (Inr f)
      with Pair have op: "os_Open (env_fs env) w filePath = (Inr f, w1)"
        by simp
      show ?thesis
      proof (cases "file_Stat (env_fs env) f")
        case (Inl err)
        with op "1.prems" openFSFile_no_stat [of env w filePath f w1 err] show ?thesis
          by auto
      next
        case st: (Inr info)
        show ?thesis
        proof (cases "info_IsDir info")
          case True
          obtain r3 w3 where rec: "openFSFile env (file_Close w1 f) (filePath @ ''/index.html'') = (r3, w3)"
            by (cases "openFSFile env (file_Close w1 f) (filePath @ ''/index.html'')") auto
          have "r3 = Inr ff"
            using "1.prems"(1) rec openFSFile_dir [OF op st True]
            by (auto split: sum.splits if_splits)
          with "1.IH" [OF Pair [symmetric] Inr st True refl refl] rec show ?thesis
            by (simp add: fileExtension_index_html)
        next
          case False
          with op st "1.prems" show ?thesis
            using openFSFile_regular [of env w filePath f w1 info]
            by (auto split: if_splits)
        qed
      qed
    qed
  qed
qed

text \<open>
  C6, as the code has it. When \<open>openFSFile\<close> opens a path that is a directory, it closes
  the directory handle (it is not open afterwards) and calls itself on the path with
  \<open>/index.html\<close> appended. If that call succeeds its descriptor is returned: it has a
  backing handle, no generated content, and the content type of the extension \<open>.html\<close>.
  If it fails with a not-exist error, \<open>openFSFile\<close> returns \<open>errDirIndexRequired\<close>; any
  other error is returned as it is. On a cache miss the handler turns
  \<open>errDirIndexRequired\<close> into \<open>createDirIndex\<close> for the requested path, also when that
  error was returned as it is from the call on \<open>index.html\<close>; every other error
  is logged and reported as \<open>StatusNotFound\<close>.
\<close>

theorem openFSFile_directory:
  assumes "os_Open (env_fs env) w filePath = (Inr d, w1)"
    and "file_Stat (env_fs env) d = Inr info" and "info_IsDir info"
  shows "\<exists>res w3. openFSFile env (file_Close w1 d) (filePath @ ''/index.html'') = (res, w3)
    \<and> file_fd d \<notin> set (open_fds (file_Close w1 d)) \<and> file_fd d \<notin> set (open_fds w3)
    \<and> openFSFile env w filePath =
        ((case res of Inr ff \<Rightarrow> Inr ff
          | Inl err \<Rightarrow> if IsNotExist err then Inl errDirIndexRequired else Inl err), w3)
    \<and> (\<forall>ff. res = Inr ff \<longrightarrow>
          ff_contentType ff = TypeByExtension env ''.html'' \<and> ff_f ff \<noteq> None \<and> ff_dirIndex ff = None)
    \<and> (\<forall>st path. st_os st = w \<and> h_root (st_h st) @ path = filePath \<longrightarrow>
          (case res of
             Inr ff \<Rightarrow> fst (cache_miss env st path) = Some ff
           | Inl err \<Rightarrow>
               if IsNotExist err \<or> err = errDirIndexRequired
               then fst (cache_miss env st path)
                    = (case fst (createDirIndex env w3 (ctx_URI (st_ctx st)) filePath) of
                         Inr ff \<Rightarrow> Some ff | Inl err' \<Rightarrow> None)
               else fst (cache_miss env st path) = None
                 \<and> ctx_status (st_ctx (snd (cache_miss env st path))) = StatusNotFound
                 \<and> ctx_log (st_ctx (snd (cache_miss env st path)))
                     = ctx_log (st_ctx st) @ [LogCannotOpen filePath err]))"
proof -
  obtain res w3 where rec: "openFSFile env (file_Close w1 d) (filePath @ ''/index.html'') = (res, w3)"
    by (cases "openFSFile env (file_Close w1 d) (filePath @ ''/index.html'')") auto
  have c1: "file_fd d \<notin> set (open_fds (file_Close w1 d))"
    by (rule file_Close_closed)
  note o = os_Open_Inr [OF assms(1)]
  have "next_fd (file_Close w1 d) = Suc (file_fd d)"
    using o by (simp add: file_Close_def)
  with openFSFile_fds [OF rec] c1 have c3: "file_fd d \<notin> set (open_fds w3)"
    by auto
  have eq: "openFSFile env w filePath =
        ((case res of Inr ff \<Rightarrow> Inr ff
          | Inl err \<Rightarrow> if IsNotExist err then Inl errDirIndexRequired else Inl err), w3)"
    using openFSFile_dir [OF assms] rec by (auto split: sum.splits)
  have ok: "\<forall>ff. res = Inr ff \<longrightarrow>
          ff_contentType ff = TypeByExtension env ''.html'' \<and> ff_f ff \<noteq> None \<and> ff_dirIndex ff = None"
    using rec openFSFile_html [of env "file_Close w1 d" "filePath @ ''/index.html''" _ w3]
      openFSFile_Inr [of env "file_Close w1 d" "filePath @ ''/index.html''" _ w3]
    by (auto simp: fileExtension_index_html)
  have h: "\<forall>st path. st_os st = w \<and> h_root (st_h st) @ path = filePath \<longrightarrow>
          (case res of
             Inr ff \<Rightarrow> fst (cache_miss env st path) = Some ff
           | Inl err \<Rightarrow>
               if IsNotExist err \<or> err = errDirIndexRequired
               then fst (cache_miss env st path)
                    = (case fst (createDirIndex env w3 (ctx_URI (st_ctx st)) filePath) of
                         Inr ff \<Rightarrow> Some ff | Inl err' \<Rightarrow> None)
               else fst (cache_miss env st path) = None
                 \<and> ctx_status (st_ctx (snd (cache_miss env st path))) = StatusNotFound
                 \<and> ctx_log (st_ctx (snd (cache_miss env st path)))
                     = ctx_log (st_ctx st) @ [LogCannotOpen filePath err])"
  proof (intro allI impI)
    fix st :: "'a state" and path
    assume a: "st_os st = w \<and> h_root (st_h st) @ path = filePath"
    show "(case res of
             Inr ff \<Rightarrow> fst (cache_miss env st path) = Some ff
           | Inl err \<Rightarrow>
               if IsNotExist err \<or> err = errDirIndexRequired
               then fst (cache_miss env st path)
                    = (case fst (createDirIndex env w3 (ctx_URI (st_ctx st)) filePath) of
                         Inr ff \<Rightarrow> Some ff | Inl err' \<Rightarrow> None)
               else fst (cache_miss env st path) = None
                 \<and> ctx_status (st_ctx (snd (cache_miss env st path))) = StatusNotFound
                 \<and> ctx_log (st_ctx (snd (cache_miss env st path)))
                     = ctx_log (st_ctx st) @ [LogCannotOpen filePath err])"
      using a eq
      by (auto simp: cache_miss_def Let_def ctx_Error_def ctx_Printf_def IsNotExist_def
          split: sum.splits prod.splits)
  qed
  from rec c1 c3 eq ok h show ?thesis
    by blast
qed


text \<open>The theorem at the directory \<open>/srv/e\<close>, which holds a file \<open>index.html\<close>.\<close>

theorem openFSFile_directory_witness:
  "openFSFile (example_env 64) example_os ''/srv/e''
     = (Inr \<lparr>ff_f = Some \<lparr>file_fd = 4, file_name = ''/srv/e/index.html''\<rparr>, ff_dirIndex = None,
              ff_contentType = ''text/html; charset=utf-8'', ff_contentLength = 7, ff_t = 0\<rparr>,
        \<lparr>next_fd = 5, open_fds = [4]\<rparr>)"
proof -
  let ?env = "example_env 64"
  let ?d = "\<lparr>file_fd = 3, file_name = ''/srv/e''\<rparr>"
  let ?w1 = "\<lparr>next_fd = 4, open_fds = [3]\<rparr>"
  let ?info = "\<lparr>info_IsDir = True, info_Size = 4096\<rparr>"
  have o: "os_Open (env_fs ?env) example_os ''/srv/e'' = (Inr ?d, ?w1)"
    by (simp add: example_defs os_Open_def)
  have s: "file_Stat (env_fs ?env) ?d = Inr ?info"
    by (simp add: example_defs file_Stat_def)
  have d: "info_IsDir ?info"
    by simp
  have r: "openFSFile ?env (file_Close ?w1 ?d) (''/srv/e'' @ ''/index.html'')
      = (Inr \<lparr>ff_f = Some \<lparr>file_fd = 4, file_name = ''/srv/e/index.html''\<rparr>, ff_dirIndex = None,
              ff_contentType = ''text/html; charset=utf-8'', ff_contentLength = 7, ff_t = 0\<rparr>,
        \<lparr>next_fd = 5, open_fds = [4]\<rparr>)"
    by (simp add: example_defs handler_defs)
  from openFSFile_directory [OF o s d] show ?thesis
    unfolding r by auto
qed

text \<open>
  C6 as it is written fails where \<open>index.html\<close> is itself a directory without an
  \<open>index.html\<close> of its own, as in \<open>/srv/g\<close>: the resolution of \<open>/srv/g/index.html\<close>
  fails with \<open>errDirIndexRequired\<close>, which is not a not-exist error, and the request
  for \<open>/g\<close> is answered with the generated listing of \<open>/srv/g\<close>, not with an error.
\<close>

theorem handleRequest_lists_when_index_html_is_directory:
  "fst (openFSFile (example_env 64) \<lparr>next_fd = 4, open_fds = []\<rparr> ''/srv/g/index.html'')
     = Inl errDirIndexRequired
   \<and> \<not> IsNotExist errDirIndexRequired
   \<and> fst (openFSFile (example_env 64) example_os ''/srv/g'') = Inl errDirIndexRequired
   \<and> handleRequest (example_env 64) (example_state 0 ''/g'')
     = Inr \<lparr>st_h = \<lparr>h_root = ''/srv'', h_stripSlashes = 0,
               h_cache = [(''/g'', \<lparr>ff_f = None,
                 ff_dirIndex = Some (''<html><head><title>/g</title></head><body><h1>/g</h1><ul>''
                   @ ''<li><a href='' @ dquote @ ''..'' @ dquote @ ''>..</a></li>''
                   @ ''<li><a href='' @ dquote @ ''/index.html'' @ dquote @ ''>index.html</a></li>''
                   @ ''</ul></body></html>''),
                 ff_contentType = ''text/html'', ff_contentLength = 149, ff_t = 0\<rparr>)]\<rparr>,
            st_pool = [], st_os = \<lparr>next_fd = 6, open_fds = []\<rparr>,
            st_ctx = \<lparr>ctx_Path = ''/g'', ctx_URI = ''/g'', ctx_log = [], ctx_status = 200,
               ctx_body = BodyStream \<lparr>r_f = None,
                 r_dirIndex = Some (''<html><head><title>/g</title></head><body><h1>/g</h1><ul>''
                   @ ''<li><a href='' @ dquote @ ''..'' @ dquote @ ''>..</a></li>''
                   @ ''<li><a href='' @ dquote @ ''/index.html'' @ dquote @ ''>index.html</a></li>''
                   @ ''</ul></body></html>''),
                 r_offset = 0\<rparr> 149,
               ctx_contentType = ''text/html''\<rparr>\<rparr>"
  by (simp add: example_defs handler_defs)

subsection \<open>The generated directory listing\<close>

lemma escape_byte_nonempty: "escape_byte c \<noteq> []"
  by (simp add: escape_byte_def)

lemma escape_byte_safe:
  "set (escape_byte c) \<inter> {CHR ''<'', CHR ''>'', CHR 0x22, CHR 0x27} = {}"
  by (simp add: escape_byte_def)

lemma EscapeString_safe:
  "set (EscapeString s) \<inter> {CHR ''<'', CHR ''>'', CHR 0x22, CHR 0x27} = {}"
  using escape_byte_safe by (induction s) (auto simp: EscapeString_def)

lemma EscapeString_Nil_iff: "EscapeString s = [] \<longleftrightarrow> s = []"
  by (cases s) (simp_all add: EscapeString_def escape_byte_nonempty)

lemma EscapeString_root_iff:
  assumes "p \<noteq> []" and "hd p = CHR ''/''"
  shows "1 < length (EscapeString p) \<longleftrightarrow> p \<noteq> ''/''"
proof -
  from assms obtain q where p: "p = CHR ''/'' # q"
    by (cases p) auto
  have "EscapeString p = CHR ''/'' # EscapeString q"
    by (simp add: p EscapeString_def escape_byte_def)
  then have "1 < length (EscapeString p) \<longleftrightarrow> EscapeString q \<noteq> []"
    by simp
  then show ?thesis
    by (simp add: p EscapeString_Nil_iff)
qed

lemma write_items_eq:
  "snd (write_items env u w names) = w @ concat (map2 list_item (item_hrefs env u names) names)"
  by (induction names arbitrary: u w) (simp_all add: Let_def Fprintf_def list_item_def)

lemma length_item_hrefs: "length (item_hrefs env u names) = length names"
  by (induction names arbitrary: u) simp_all

lemma createDirIndex_eq:
  assumes "os_Open (env_fs env) os0 filePath = (Inr d, os1)"
    and "file_Readdirnames (env_fs env) d = Inr names"
    and "uri_Path env base \<noteq> []" and "hd (uri_Path env base) = CHR ''/''"
  shows "createDirIndex env os0 base filePath =
    (Inr \<lparr>ff_f = None, ff_dirIndex = Some (listing_page env base (sort names)),
           ff_contentType = ''text/html'',
           ff_contentLength = int (length (listing_page env base (sort names))), ff_t = 0\<rparr>,
     file_Close os1 d)"
proof -
  have root: "1 < length (EscapeString (uri_Path env base)) \<longleftrightarrow> uri_Path env base \<noteq> ''/''"
    using assms(3,4) by (rule EscapeString_root_iff)
  show ?thesis
  proof (cases "uri_Path env base = ''/''")
    case True
    with root have "\<not> 1 < length (EscapeString (uri_Path env base))"
      by blast
    with True show ?thesis
      using assms(1,2)
      by (simp add: createDirIndex_def Let_def write_items_eq listing_page_def Fprintf_def)
  next
    case False
    with root have "1 < length (EscapeString (uri_Path env base))"
      by blast
    with False show ?thesis
      using assms(1,2)
      by (simp add: createDirIndex_def Let_def write_items_eq listing_page_def Fprintf_def
          parent_item_def)
  qed
qed

text \<open>
  C5. For a directory that can be opened and whose names can be read, and a requested
  path that starts with \<open>/\<close>, \<open>createDirIndex\<close> succeeds, closes the directory and
  returns the page of the specification for the sorted names: title and heading from
  the escaped requested path, the parent link exactly when the path is not \<open>/\<close>, then
  one list item per child, in the lexicographic order of the names, each with its href
  and its name escaped. The sorted list is a sorted permutation of the names and is the
  same for every order in which the names are read; the escaped text of any string
  contains no \<open><\<close>, \<open>>\<close> or quote.
\<close>

theorem createDirIndex_listing:
  assumes "os_Open (env_fs env) os0 filePath = (Inr d, os1)"
    and "file_Readdirnames (env_fs env) d = Inr names"
    and "uri_Path env base \<noteq> []" and "hd (uri_Path env base) = CHR ''/''"
  shows "createDirIndex env os0 base filePath =
      (Inr \<lparr>ff_f = None, ff_dirIndex = Some (listing_page env base (sort names)),
             ff_contentType = ''text/html'',
             ff_contentLength = int (length (listing_page env base (sort names))), ff_t = 0\<rparr>,
       file_Close os1 d)
    \<and> sorted (sort names) \<and> mset (sort names) = mset names
    \<and> length (map2 list_item (item_hrefs env base (sort names)) (sort names)) = length names
    \<and> (\<forall>names'. mset names' = mset names \<longrightarrow> sort names' = sort names)
    \<and> (\<forall>s. set (EscapeString s) \<inter> {CHR ''<'', CHR ''>'', CHR 0x22, CHR 0x27} = {})"
proof (intro conjI allI impI)
  show "createDirIndex env os0 base filePath =
      (Inr \<lparr>ff_f = None, ff_dirIndex = Some (listing_page env base (sort names)),
             ff_contentType = ''text/html'',
             ff_contentLength = int (length (listing_page env base (sort names))), ff_t = 0\<rparr>,
       file_Close os1 d)"
    by (rule createDirIndex_eq [OF assms])
  show "sorted (sort names)"
    by (rule sorted_sort)
  show "mset (sort names) = mset names"
    by (rule mset_sort)
  show "length (map2 list_item (item_hrefs env base (sort names)) (sort names)) = length names"
    by (simp add: length_item_hrefs)
  show "sort names' = sort names" if "mset names' = mset names" for names'
  proof (rule properties_for_sort)
    show "mset (sort names) = mset names'"
      using that by simp
    show "sorted (sort names)"
      by (rule sorted_sort)
  qed
  show "set (EscapeString s) \<inter> {CHR ''<'', CHR ''>'', CHR 0x22, CHR 0x27} = {}" for s
    by (rule EscapeString_safe)
qed

text \<open>
  The theorem at the directory \<open>/srv/d\<close>, whose names are read in the order \<open>b.txt\<close>,
  \<open>a.txt\<close>, \<open>index.htm\<close>, requested as \<open>/d/\<close>.
\<close>

theorem createDirIndex_listing_witness:
  "ff_dirIndex (projr (fst (createDirIndex (example_env 64) example_os ''/d/'' ''/srv/d'')))
     = Some (''<html><head><title>/d/</title></head><body><h1>/d/</h1><ul>''
         @ ''<li><a href='' @ dquote @ ''..'' @ dquote @ ''>..</a></li>''
         @ ''<li><a href='' @ dquote @ ''/d/a.txt'' @ dquote @ ''>a.txt</a></li>''
         @ ''<li><a href='' @ dquote @ ''/d/b.txt'' @ dquote @ ''>b.txt</a></li>''
         @ ''<li><a href='' @ dquote @ ''/d/index.htm'' @ dquote @ ''>index.htm</a></li>''
         @ ''</ul></body></html>'')"
proof -
  let ?env = "example_env 64"
  let ?d = "\<lparr>file_fd = 3, file_name = ''/srv/d''\<rparr>"
  let ?w1 = "\<lparr>next_fd = 4, open_fds = [3]\<rparr>"
  have o: "os_Open (env_fs ?env) example_os ''/srv/d'' = (Inr ?d, ?w1)"
    by (simp add: example_defs os_Open_def)
  have r: "file_Readdirnames (env_fs ?env) ?d = Inr [''b.txt'', ''a.txt'', ''index.htm'']"
    by (simp add: example_defs file_Readdirnames_def)
  have p: "uri_Path ?env ''/d/'' \<noteq> []" "hd (uri_Path ?env ''/d/'') = CHR ''/''"
    by (simp_all add: example_defs)
  have s: "sort [''b.txt'', ''a.txt'', ''index.htm''] = [''a.txt'', ''b.txt'', ''index.htm'']"
    by simp
  have l: "listing_page ?env ''/d/'' [''a.txt'', ''b.txt'', ''index.htm'']
      = ''<html><head><title>/d/</title></head><body><h1>/d/</h1><ul>''
         @ ''<li><a href='' @ dquote @ ''..'' @ dquote @ ''>..</a></li>''
         @ ''<li><a href='' @ dquote @ ''/d/a.txt'' @ dquote @ ''>a.txt</a></li>''
         @ ''<li><a href='' @ dquote @ ''/d/b.txt'' @ dquote @ ''>b.txt</a></li>''
         @ ''<li><a href='' @ dquote @ ''/d/index.htm'' @ dquote @ ''>index.htm</a></li>''
         @ ''</ul></body></html>''"
    by (simp add: listing_page_def parent_item_def list_item_def example_defs EscapeString_def
        escape_byte_def dquote_def)
  from createDirIndex_listing [OF o r p] show ?thesis
    by (simp only: s l fst_conv sum.sel fsFile.simps)
qed

end
